theory Spec2Isabelle
  imports Complex_Main "HOL-Library.Multiset"
begin

section \<open>Dutch Blitz engine: cards\<close>

text \<open>
  The engine of \<^verbatim>\<open>dutchBlitzGame.js\<close>.  A card is a value (1 to 10 in every deck the
  engine builds) and one of four colours.  The field \<^verbatim>\<open>value\<close> of the source is the
  selector \<open>cvalue\<close> here.
\<close>

datatype color = Red | Blue | Green | Yellow

datatype card = Card (cvalue: int) (color: color)

text \<open>
  Every pile is a JavaScript array whose top is its last element: \<^verbatim>\<open>push\<close> appends,
  \<^verbatim>\<open>pop\<close> removes the last element (and does nothing on an empty array).  The idiom
  \<^verbatim>\<open>pile.length > 0 ? pile[pile.length - 1] : null\<close> is \<open>topCard\<close>.
\<close>

definition topCard :: "card list \<Rightarrow> card option" where
  "topCard pile = (if pile = [] then None else Some (last pile))"

text \<open>\<^verbatim>\<open>Card.canPlayOn\<close>: a shared Dutch pile starts with a 1 and builds up in one colour.\<close>

fun canPlayOn :: "card \<Rightarrow> card option \<Rightarrow> bool" where
  "canPlayOn c None = (cvalue c = 1)"
| "canPlayOn c (Some targetCard) =
     (color c = color targetCard \<and> cvalue c = cvalue targetCard + 1)"

text \<open>\<^verbatim>\<open>Card.canPostOn\<close>: a post pile takes any card when empty and builds down by one.\<close>

fun canPostOn :: "card \<Rightarrow> card option \<Rightarrow> bool" where
  "canPostOn c None = True"
| "canPostOn c (Some targetCard) = (cvalue c = cvalue targetCard - 1)"

section \<open>Players\<close>

datatype strategy = Aggressive | Balanced

record player =
  name :: string
  isBot :: bool
  blitzPile :: "card list"
  postPiles :: "card list list"
  drawPile :: "card list"
  drawRevealed :: "card list"
  playsThisRound :: nat
  totalPlays :: nat
  wins :: nat
  strategy :: strategy

text \<open>
  An entry of \<^verbatim>\<open>getAvailableCards\<close> is an object with the card and the description of
  where it lies: \<^verbatim>\<open>{card, source: 'blitz'}\<close>, \<^verbatim>\<open>{card, source: 'post', pileIndex: i}\<close>
  or \<^verbatim>\<open>{card, source: 'draw', drawIndex: i}\<close>.  The type \<open>source\<close> is such an entry
  without its card; its field \<^verbatim>\<open>source\<close> is one of three strings, the \<open>source_name\<close>.
\<close>

datatype source = Blitz | Post nat | Draw nat

datatype source_name = BlitzName | PostName | DrawName

fun sourceName :: "source \<Rightarrow> source_name" where
  "sourceName Blitz = BlitzName"
| "sourceName (Post i) = PostName"
| "sourceName (Draw i) = DrawName"

text \<open>
  What a caller hands over as the parameter \<^verbatim>\<open>source\<close> of \<^verbatim>\<open>playCard\<close>,
  \<^verbatim>\<open>removeCardFromSource\<close> and \<^verbatim>\<open>getMovePriority\<close>: the entry, or only the string.  The
  three methods read \<^verbatim>\<open>source.source\<close>, which is the string for an entry and
  \<^verbatim>\<open>undefined\<close> for a string.
\<close>

datatype source_arg = Entry source | Name source_name

type_synonym dutch = "color \<Rightarrow> card list"

text \<open>Errors of the JavaScript runtime that the engine can raise: a property read on
  \<^verbatim>\<open>undefined\<close>.\<close>

datatype error = TypeError

definition getAvailableCards :: "player \<Rightarrow> (card \<times> source) list" where
  "getAvailableCards p =
     (if blitzPile p \<noteq> [] then [(last (blitzPile p), Blitz)] else []) @
     concat (map (\<lambda>i. if postPiles p ! i \<noteq> [] then [(last (postPiles p ! i), Post i)] else [])
                 [0..<length (postPiles p)]) @
     map (\<lambda>i. (drawRevealed p ! i, Draw i)) [0..<length (drawRevealed p)]"

text \<open>
  The reveal loop of \<^verbatim>\<open>drawCards\<close>:
  \<^verbatim>\<open>for (let i = 0; i < 3 && this.drawPile.length > 0; i++) this.drawRevealed.push(this.drawPile.pop())\<close>.
  The first argument counts the iterations that are left.
\<close>

fun reveal :: "nat \<Rightarrow> card list \<Rightarrow> card list \<Rightarrow> card list \<times> card list" where
  "reveal 0 dp rv = (dp, rv)"
| "reveal (Suc n) dp rv = (if dp = [] then (dp, rv) else reveal n (butlast dp) (rv @ [last dp]))"

text \<open>
  \<^verbatim>\<open>Player.drawCards\<close>, returning the boolean and the updated player.  With an empty
  revealed buffer it reveals up to three cards; with a non-empty buffer and a non-empty
  draw pile it puts the reversed buffer under the draw pile (\<^verbatim>\<open>unshift\<close>) and reveals
  again; with an empty draw pile it returns false and changes nothing.
\<close>

definition drawCards :: "player \<Rightarrow> bool \<times> player" where
  "drawCards p =
     (if drawPile p = [] \<and> drawRevealed p = [] then (False, p)
      else if drawRevealed p = [] \<and> drawPile p \<noteq> [] then
        (let (dp, rv) = reveal 3 (drawPile p) (drawRevealed p)
         in (True, p\<lparr>drawPile := dp, drawRevealed := rv\<rparr>))
      else if drawPile p \<noteq> [] then
        (let (dp, rv) = reveal 3 (rev (drawRevealed p) @ drawPile p) []
         in (True, p\<lparr>drawPile := dp, drawRevealed := rv\<rparr>))
      else (False, p))"

text \<open>
  \<^verbatim>\<open>Player.removeCardFromSource\<close>.  \<^verbatim>\<open>splice(i, 1)\<close> removes the element at index
  \<open>i\<close> and nothing when \<open>i\<close> is beyond the end; a post pile index beyond the array reads
  \<^verbatim>\<open>undefined\<close> and the call of \<^verbatim>\<open>pop\<close> on it throws.  For a string none of the three
  comparisons of \<^verbatim>\<open>source.source\<close> holds, and nothing is removed.
\<close>

definition removeCardFromSource :: "source_arg \<Rightarrow> player \<Rightarrow> error + player" where
  "removeCardFromSource src p =
     (case src of
        Entry Blitz \<Rightarrow> Inr (p\<lparr>blitzPile := butlast (blitzPile p)\<rparr>)
      | Entry (Post i) \<Rightarrow>
          (if i < length (postPiles p)
           then Inr (p\<lparr>postPiles := (postPiles p)[i := butlast (postPiles p ! i)]\<rparr>)
           else Inl TypeError)
      | Entry (Draw i) \<Rightarrow>
          Inr (p\<lparr>drawRevealed := take i (drawRevealed p) @ drop (Suc i) (drawRevealed p)\<rparr>)
      | Name n \<Rightarrow> Inr p)"

text \<open>
  \<^verbatim>\<open>Player.playCard(card, source, dutchPiles, targetPostPile)\<close>.  The last argument is
  \<open>None\<close> for \<^verbatim>\<open>null\<close> (play to the Dutch pile of the card's colour) and \<open>Some k\<close> for
  post pile \<open>k\<close>.  The result is the boolean, the updated player and the updated Dutch
  piles.  The card is pushed on the target before it is removed from the source.
\<close>

definition playCard ::
  "card \<Rightarrow> source_arg \<Rightarrow> dutch \<Rightarrow> nat option \<Rightarrow> player \<Rightarrow> error + (bool \<times> player \<times> dutch)" where
  "playCard c src dutchPiles targetPostPile p =
     (case targetPostPile of
        Some k \<Rightarrow>
          (if length (postPiles p) \<le> k then Inl TypeError
           else if \<not> canPostOn c (topCard (postPiles p ! k)) then Inr (False, p, dutchPiles)
           else
             (case removeCardFromSource src (p\<lparr>postPiles := (postPiles p)[k := postPiles p ! k @ [c]]\<rparr>) of
                Inl e \<Rightarrow> Inl e
              | Inr p' \<Rightarrow>
                  Inr (True, p'\<lparr>playsThisRound := playsThisRound p' + 1, totalPlays := totalPlays p' + 1\<rparr>,
                       dutchPiles)))
      | None \<Rightarrow>
          (if \<not> canPlayOn c (topCard (dutchPiles (color c))) then Inr (False, p, dutchPiles)
           else
             (case removeCardFromSource src p of
                Inl e \<Rightarrow> Inl e
              | Inr p' \<Rightarrow>
                  Inr (True, p'\<lparr>playsThisRound := playsThisRound p' + 1, totalPlays := totalPlays p' + 1\<rparr>,
                       dutchPiles(color c := dutchPiles (color c) @ [c])))))"

definition hasWon :: "player \<Rightarrow> bool" where
  "hasWon p = (blitzPile p = [])"

text \<open>
  \<^verbatim>\<open>Player.canMakeMove\<close>: some available card fits its Dutch pile or one of the post
  piles.
\<close>

definition canMakeMove :: "dutch \<Rightarrow> player \<Rightarrow> bool" where
  "canMakeMove dutchPiles p =
     list_ex (\<lambda>(c, src). canPlayOn c (topCard (dutchPiles (color c))) \<or>
                list_ex (\<lambda>i. canPostOn c (topCard (postPiles p ! i))) [0..<length (postPiles p)])
       (getAvailableCards p)"

section \<open>The bot\<close>

text \<open>
  \<^verbatim>\<open>Math.random()\<close> returns a number in the half-open interval from 0 to 1.  The type
  \<open>unit_interval\<close> holds exactly these numbers (as reals), and a random source \<open>rnd\<close> lists
  the results of the successive calls: \<open>r 0\<close> is the next one, and \<open>\<lambda>n. r (Suc n)\<close> is the
  source after one call.
\<close>

typedef unit_interval = "{x::real. 0 \<le> x \<and> x < 1}"
  by (rule exI[of _ 0]) simp

setup_lifting type_definition_unit_interval

lift_definition unitZero :: unit_interval is "0"
  by simp

lift_definition unitHalf :: unit_interval is "1 / 2"
  by simp

type_synonym rnd = "nat \<Rightarrow> unit_interval"

definition random :: "rnd \<Rightarrow> real" where
  "random r = Rep_unit_interval (r 0)"

definition nextRnd :: "rnd \<Rightarrow> rnd" where
  "nextRnd r = (\<lambda>n. r (Suc n))"

text \<open>The target tag of a candidate move: \<^verbatim>\<open>'dutch'\<close> or \<^verbatim>\<open>'post'\<close>.\<close>

datatype target = Dutch | PostTarget

text \<open>
  A candidate move of \<^verbatim>\<open>makeMove\<close>.  Its field \<^verbatim>\<open>source\<close> holds what the destructuring
  \<^verbatim>\<open>const {card, source} = availableCard\<close> has bound: the string of the entry.
\<close>

record move =
  mcard :: card
  msource :: source_name
  mtarget :: target
  mpostPile :: "nat option"
  priority :: real

text \<open>
  \<^verbatim>\<open>SimpleBot.getMovePriority\<close>.  The test \<^verbatim>\<open>source.source === 'blitz'\<close> holds for the
  entry of the blitz pile only.  A balanced bot adds \<^verbatim>\<open>Math.random() * 20\<close> and so
  consumes one random number; an aggressive bot consumes none.
\<close>

definition getMovePriority ::
  "strategy \<Rightarrow> rnd \<Rightarrow> card \<Rightarrow> source_arg \<Rightarrow> target \<Rightarrow> real \<times> rnd" where
  "getMovePriority st r c src tgt =
     (let p0 = (if tgt = Dutch \<and> cvalue c = 1 then 200 else 0);
          p1 = p0 + (if src = Entry Blitz then 100 else 0);
          p2 = p1 + (if tgt = Dutch then 50 else 0);
          p3 = p2 + real_of_int ((11 - cvalue c) * 5)
      in if st = Aggressive
         then (p3 + (if src = Entry Blitz then 50 else 0) + (if tgt = Dutch then 30 else 0), r)
         else (p3 + random r * 20, nextRnd r))"

text \<open>
  The inner loop of \<^verbatim>\<open>makeMove\<close> over the post piles, for one available card; \<open>src\<close> is
  the string that the destructuring has bound to \<^verbatim>\<open>source\<close>, and it is this string that
  goes to \<^verbatim>\<open>getMovePriority\<close>.  A post pile that accepts the card is a candidate only
  when it is empty, or the card is below 8, or the gap to its top is at least 2.
\<close>

fun postMoves ::
  "player \<Rightarrow> card \<Rightarrow> source_name \<Rightarrow> nat list \<Rightarrow> move list \<times> rnd \<Rightarrow> move list \<times> rnd" where
  "postMoves p c src [] acc = acc"
| "postMoves p c src (i # is) (moves, r) =
     (let topPostCard = topCard (postPiles p ! i)
      in if canPostOn c topPostCard \<and>
            (case topPostCard of None \<Rightarrow> True
             | Some t \<Rightarrow> cvalue c < 8 \<or> cvalue t - cvalue c \<ge> 2)
         then (let (pr, r') = getMovePriority (strategy p) r c (Name src) PostTarget
               in postMoves p c src is
                    (moves @ [\<lparr>mcard = c, msource = src, mtarget = PostTarget,
                               mpostPile = Some i, priority = pr\<rparr>], r'))
         else postMoves p c src is (moves, r))"

text \<open>
  The outer loop of \<^verbatim>\<open>makeMove\<close> over the available cards.  Of an entry,
  \<^verbatim>\<open>const {card, source} = availableCard\<close> keeps the card and the string; the index of the
  entry is dropped.
\<close>

fun collectMoves ::
  "player \<Rightarrow> dutch \<Rightarrow> (card \<times> source) list \<Rightarrow> move list \<times> rnd \<Rightarrow> move list \<times> rnd" where
  "collectMoves p dutchPiles [] acc = acc"
| "collectMoves p dutchPiles ((c, entry) # rest) (moves, r) =
     collectMoves p dutchPiles rest
       (postMoves p c (sourceName entry) [0..<length (postPiles p)]
          (if canPlayOn c (topCard (dutchPiles (color c)))
           then (let (pr, r') = getMovePriority (strategy p) r c (Name (sourceName entry)) Dutch
                 in (moves @ [\<lparr>mcard = c, msource = sourceName entry, mtarget = Dutch,
                                mpostPile = None, priority = pr\<rparr>], r'))
           else (moves, r)))"

text \<open>
  \<^verbatim>\<open>SimpleBot.makeMove\<close>.  \<^verbatim>\<open>moves.sort((a, b) => b.priority - a.priority)\<close> is a
  stable sort by descending priority, here the stable insertion sort \<open>sort_key\<close> on the
  negated priority; \<^verbatim>\<open>moves[0]\<close> is its head.  \<^verbatim>\<open>playCard\<close> gets
  \<^verbatim>\<open>bestMove.source\<close>, the string.  A post move always carries its pile
  index; without one, \<^verbatim>\<open>this.postPiles[undefined]\<close> would be \<^verbatim>\<open>undefined\<close> and playCard
  would throw.  The result is the boolean, the updated player, the updated Dutch piles and
  the random source that is left.
\<close>

definition makeMove :: "rnd \<Rightarrow> dutch \<Rightarrow> player \<Rightarrow> error + (bool \<times> player \<times> dutch \<times> rnd)" where
  "makeMove r dutchPiles p =
     (let p1 = (if drawRevealed p = [] \<and> drawPile p \<noteq> [] then snd (drawCards p) else p);
          (moves, r1) = collectMoves p1 dutchPiles (getAvailableCards p1) ([], r)
      in if moves = [] then (let (drewCards, p2) = drawCards p1 in Inr (drewCards, p2, dutchPiles, r1))
         else
           (let bestMove = hd (sort_key (\<lambda>m. - priority m) moves)
            in case (if mtarget bestMove = Dutch
                     then playCard (mcard bestMove) (Name (msource bestMove)) dutchPiles None p1
                     else (case mpostPile bestMove of
                             None \<Rightarrow> Inl TypeError
                           | Some k \<Rightarrow>
                               playCard (mcard bestMove) (Name (msource bestMove)) dutchPiles (Some k) p1))
               of Inl e \<Rightarrow> Inl e
                | Inr (b, p2, d2) \<Rightarrow> Inr (b, p2, d2, r1)))"

section \<open>The game\<close>

text \<open>\<^verbatim>\<open>Math.round\<close>: the nearest integer, a tie going up.\<close>

definition jsRound :: "real \<Rightarrow> int" where
  "jsRound x = \<lfloor>x + 1 / 2\<rfloor>"

text \<open>
  The entry of \<^verbatim>\<open>gameStats.playerStats\<close> for one player.  Its fields \<^verbatim>\<open>wins\<close> and
  \<^verbatim>\<open>totalPlays\<close> are \<open>statWins\<close> and \<open>statTotalPlays\<close> here, the names being taken by
  the player's own fields.
\<close>

record player_stats =
  statWins :: nat
  statTotalPlays :: nat
  averagePlaysPerGame :: int

record game_stats =
  totalGames :: nat
  averageRoundDuration :: int
  playerStats :: "string \<rightharpoonup> player_stats"

text \<open>
  The fields of \<^verbatim>\<open>DutchBlitzGame\<close>.  \<open>winner\<close> refers to a player by its index in
  \<open>players\<close>; \<open>roundStartTime\<close> is \<open>None\<close> for \<^verbatim>\<open>null\<close>.
\<close>

record game =
  players :: "player list"
  dutchPiles :: dutch
  gameActive :: bool
  winner :: "nat option"
  roundStartTime :: "int option"
  roundDuration :: int
  roundNumber :: nat
  moveCount :: nat
  gameStats :: game_stats

text \<open>
  \<^verbatim>\<open>Math.floor((Date.now() - this.roundStartTime) / 1000)\<close>, the clock reading being the
  first argument; \<^verbatim>\<open>null\<close> counts as 0 in the subtraction.
\<close>

definition elapsedSeconds :: "int \<Rightarrow> game \<Rightarrow> int" where
  "elapsedSeconds now g = (now - (case roundStartTime g of None \<Rightarrow> 0 | Some s \<Rightarrow> s)) div 1000"

text \<open>
  The loop of \<^verbatim>\<open>updateStats\<close> over the players; \<open>n\<close> is the new \<^verbatim>\<open>totalGames\<close>.  A
  player without an entry makes \<^verbatim>\<open>stats\<close> undefined, and the assignment to its field
  throws.
\<close>

fun updatePlayerStats ::
  "nat \<Rightarrow> player list \<Rightarrow> (string \<rightharpoonup> player_stats) \<Rightarrow> error + (string \<rightharpoonup> player_stats)" where
  "updatePlayerStats n [] ps = Inr ps"
| "updatePlayerStats n (p # rest) ps =
     (case ps (name p) of
        None \<Rightarrow> Inl TypeError
      | Some stats \<Rightarrow>
          updatePlayerStats n rest
            (ps(name p \<mapsto> stats\<lparr>statWins := wins p, statTotalPlays := totalPlays p,
                  averagePlaysPerGame := jsRound (real (totalPlays p) / real n)\<rparr>)))"

definition updateStats :: "game \<Rightarrow> error + game" where
  "updateStats g =
     (let st = gameStats g;
          n = totalGames st + 1;
          totalDuration = averageRoundDuration st * (int n - 1) + roundDuration g;
          avg = jsRound (real_of_int totalDuration / real n)
      in case updatePlayerStats n (players g) (playerStats st) of
           Inl e \<Rightarrow> Inl e
         | Inr ps \<Rightarrow>
             Inr (g\<lparr>gameStats := st\<lparr>totalGames := n, averageRoundDuration := avg, playerStats := ps\<rparr>\<rparr>))"

text \<open>
  \<^verbatim>\<open>endRound(winner)\<close>; the second argument is the reading of \<^verbatim>\<open>Date.now()\<close>.  The
  console output is left out.
\<close>

definition endRound :: "nat option \<Rightarrow> int \<Rightarrow> game \<Rightarrow> error + game" where
  "endRound w now g =
     (let g1 = g\<lparr>gameActive := False, winner := w, roundDuration := elapsedSeconds now g\<rparr>;
          g2 = (case w of
                  None \<Rightarrow> g1
                | Some i \<Rightarrow> g1\<lparr>players := (players g1)[i := (players g1 ! i)\<lparr>wins := wins (players g1 ! i) + 1\<rparr>]\<rparr>)
      in updateStats g2)"

subsection \<open>Dealing\<close>

text \<open>The deck that \<^verbatim>\<open>initializeCards\<close> builds: for each colour the values 1 to 10.\<close>

definition colors :: "color list" where
  "colors = [Red, Blue, Green, Yellow]"

definition newDeck :: "card list" where
  "newDeck = concat (map (\<lambda>c. map (\<lambda>v. Card v c) [1..10]) colors)"

text \<open>
  The shuffle loop \<^verbatim>\<open>for (let i = deck.length - 1; i > 0; i--)\<close> with
  \<^verbatim>\<open>j = Math.floor(Math.random() * (i + 1))\<close> and the swap of \<^verbatim>\<open>deck[i]\<close> and
  \<^verbatim>\<open>deck[j]\<close>.  The first argument is \<open>i\<close>.
\<close>

fun shuffle :: "nat \<Rightarrow> rnd \<Rightarrow> card list \<Rightarrow> card list \<times> rnd" where
  "shuffle 0 r deck = (deck, r)"
| "shuffle (Suc i) r deck =
     (let j = nat \<lfloor>random r * (real (Suc i) + 1)\<rfloor>
      in shuffle i (nextRnd r) (deck[Suc i := deck ! j, j := deck ! Suc i]))"

definition initializeCards :: "rnd \<Rightarrow> player \<Rightarrow> player \<times> rnd" where
  "initializeCards r p =
     (let (deck, r') = shuffle (length newDeck - 1) r newDeck
      in (snd (drawCards (p\<lparr>blitzPile := take 10 deck, drawPile := drop 10 deck,
                             drawRevealed := [], postPiles := [[], [], []],
                             playsThisRound := 0\<rparr>)), r'))"

fun initializePlayers :: "rnd \<Rightarrow> player list \<Rightarrow> player list \<times> rnd" where
  "initializePlayers r [] = ([], r)"
| "initializePlayers r (p # ps) =
     (let (p', r') = initializeCards r p;
          (ps', r'') = initializePlayers r' ps
      in (p' # ps', r''))"

text \<open>\<^verbatim>\<open>startNewRound\<close>; the second argument is the reading of \<^verbatim>\<open>Date.now()\<close>.\<close>

definition startNewRound :: "rnd \<Rightarrow> int \<Rightarrow> game \<Rightarrow> game" where
  "startNewRound r now g =
     g\<lparr>gameActive := True, winner := None, roundStartTime := Some now, roundDuration := 0,
       roundNumber := roundNumber g + 1, moveCount := 0, dutchPiles := (\<lambda>c. []),
       players := fst (initializePlayers r (players g))\<rparr>"

subsection \<open>The constructor\<close>

text \<open>The decimal numeral of a natural number, for the bot names \<^verbatim>\<open>`Bot ${i + 1}`\<close>.\<close>

fun showNat :: "nat \<Rightarrow> string" where
  "showNat n =
     (if n < 10 then [char_of (48 + n)] else showNat (n div 10) @ [char_of (48 + n mod 10)])"

declare showNat.simps [simp del]

definition newBot :: "string \<Rightarrow> rnd \<Rightarrow> player \<times> rnd" where
  "newBot nm r =
     (\<lparr>name = nm, isBot = True, blitzPile = [], postPiles = [[], [], []], drawPile = [],
       drawRevealed = [], playsThisRound = 0, totalPlays = 0, wins = 0,
       strategy = (if random r < 1 / 2 then Aggressive else Balanced)\<rparr>, nextRnd r)"

fun createPlayers :: "nat list \<Rightarrow> rnd \<Rightarrow> game \<Rightarrow> game" where
  "createPlayers [] r g = g"
| "createPlayers (i # is) r g =
     (let (bot, r') = newBot (''Bot '' @ showNat (i + 1)) r
      in createPlayers is r'
           (g\<lparr>players := players g @ [bot],
              gameStats := (gameStats g)\<lparr>playerStats := (playerStats (gameStats g))
                (name bot \<mapsto> \<lparr>statWins = 0, statTotalPlays = 0, averagePlaysPerGame = 0\<rparr>)\<rparr>\<rparr>))"

definition newGame :: "rnd \<Rightarrow> nat \<Rightarrow> game" where
  "newGame r playerCount =
     createPlayers [0..<playerCount] r
       \<lparr>players = [], dutchPiles = (\<lambda>c. []), gameActive = False, winner = None,
        roundStartTime = None, roundDuration = 0, roundNumber = 0, moveCount = 0,
        gameStats = \<lparr>totalGames = 0, averageRoundDuration = 0, playerStats = Map.empty\<rparr>\<rparr>"

subsection \<open>One turn\<close>

text \<open>
  The state of one call of \<^verbatim>\<open>playTurn\<close>: the game, the two locals
  \<^verbatim>\<open>anyPlayerMoved\<close> and \<^verbatim>\<open>staleMateCounter\<close>, and the random source.
\<close>

record turn =
  game :: game
  anyPlayerMoved :: bool
  staleMateCounter :: nat
  rand :: rnd

text \<open>
  How a part of \<^verbatim>\<open>playTurn\<close> ends: \<open>Proceed\<close> goes on with the code that follows,
  \<open>Return\<close> is the statement \<^verbatim>\<open>return true\<close> after \<^verbatim>\<open>endRound(player)\<close>.
\<close>

datatype ctl = Proceed turn | Return turn

text \<open>\<^verbatim>\<open>player.makeMove(this.dutchPiles)\<close> for the player at index \<open>i\<close>.\<close>

definition botMove :: "nat \<Rightarrow> turn \<Rightarrow> error + (bool \<times> turn)" where
  "botMove i t =
     (case makeMove (rand t) (dutchPiles (game t)) (players (game t) ! i) of
        Inl e \<Rightarrow> Inl e
      | Inr (b, p', d', r') \<Rightarrow>
          Inr (b, t\<lparr>game := (game t)\<lparr>players := (players (game t))[i := p'], dutchPiles := d'\<rparr>,
                    rand := r'\<rparr>))"

text \<open>\<^verbatim>\<open>player.drawCards()\<close> for the player at index \<open>i\<close>.\<close>

definition drawStep :: "nat \<Rightarrow> turn \<Rightarrow> bool \<times> turn" where
  "drawStep i t =
     (let (b, p') = drawCards (players (game t) ! i)
      in (b, t\<lparr>game := (game t)\<lparr>players := (players (game t))[i := p']\<rparr>\<rparr>))"

text \<open>
  \<^verbatim>\<open>anyPlayerMoved = true; this.moveCount++\<close>, the bookkeeping after a bot invocation
  that returned true (\<^verbatim>\<open>movesMade++\<close> is an argument of the loop below).
\<close>

definition countMove :: "turn \<Rightarrow> turn" where
  "countMove t = t\<lparr>anyPlayerMoved := True, game := (game t)\<lparr>moveCount := moveCount (game t) + 1\<rparr>\<rparr>"

text \<open>
  The win check after a counted move:
  \<^verbatim>\<open>if (player.hasWon()) { this.endRound(player); return true; }\<close>.  The clock is read
  for the first time in this call, hence \<open>now 0\<close>.  Without a win the result is \<open>None\<close>.
\<close>

definition winCheck :: "(nat \<Rightarrow> int) \<Rightarrow> nat \<Rightarrow> turn \<Rightarrow> (error + ctl) option" where
  "winCheck now i t =
     (if hasWon (players (game t) ! i)
      then Some (case endRound (Some i) (now 0) (game t) of
                   Inl e \<Rightarrow> Inl e
                 | Inr g' \<Rightarrow> Inr (Return (t\<lparr>game := g'\<rparr>)))
      else None)"

text \<open>
  The loop \<^verbatim>\<open>for (let drawAttempts = 0; drawAttempts < 2; drawAttempts++)\<close> that runs
  after a bot invocation returned false; the third argument counts the iterations that are
  left.  Every way out of it is followed by the \<^verbatim>\<open>break\<close> that leaves the player's
  loop.
\<close>

fun drawRetry :: "(nat \<Rightarrow> int) \<Rightarrow> nat \<Rightarrow> nat \<Rightarrow> turn \<Rightarrow> error + ctl" where
  "drawRetry now i 0 t = Inr (Proceed t)"
| "drawRetry now i (Suc n) t =
     (case drawStep i t of
        (False, t1) \<Rightarrow> Inr (Proceed (t1\<lparr>staleMateCounter := staleMateCounter t1 + 1\<rparr>))
      | (True, t1) \<Rightarrow>
          (case botMove i t1 of
             Inl e \<Rightarrow> Inl e
           | Inr (False, t2) \<Rightarrow> drawRetry now i n t2
           | Inr (True, t2) \<Rightarrow>
               (case winCheck now i (countMove t2) of
                  Some res \<Rightarrow> res
                | None \<Rightarrow> Inr (Proceed (countMove t2)))))"

text \<open>
  The loop \<^verbatim>\<open>while (movesMade < 3 && attempts < maxAttempts && this.gameActive)\<close> for
  the player at index \<open>i\<close>, with \<^verbatim>\<open>maxAttempts = 5\<close>.
\<close>

function playerLoop :: "(nat \<Rightarrow> int) \<Rightarrow> nat \<Rightarrow> nat \<Rightarrow> nat \<Rightarrow> turn \<Rightarrow> error + ctl" where
  "playerLoop now i movesMade attempts t =
     (if movesMade < 3 \<and> attempts < 5 \<and> gameActive (game t) then
        (case botMove i t of
           Inl e \<Rightarrow> Inl e
         | Inr (True, t1) \<Rightarrow>
             (case winCheck now i (countMove t1) of
                Some res \<Rightarrow> res
              | None \<Rightarrow> playerLoop now i (movesMade + 1) (attempts + 1) (countMove t1))
         | Inr (False, t1) \<Rightarrow> drawRetry now i 2 t1)
      else Inr (Proceed t))"
  by pat_completeness auto
termination
  by (relation "measure (\<lambda>(now, i, movesMade, attempts, t). 5 - attempts)") auto

text \<open>The loop \<^verbatim>\<open>for (let player of this.players)\<close>, over the indices of the players.\<close>

fun playersLoop :: "(nat \<Rightarrow> int) \<Rightarrow> nat list \<Rightarrow> turn \<Rightarrow> error + ctl" where
  "playersLoop now [] t = Inr (Proceed t)"
| "playersLoop now (i # is) t =
     (if gameActive (game t) \<and> \<not> hasWon (players (game t) ! i) then
        (case playerLoop now i 0 0 t of
           Inl e \<Rightarrow> Inl e
         | Inr (Return t') \<Rightarrow> Inr (Return t')
         | Inr (Proceed t') \<Rightarrow> playersLoop now is t')
      else playersLoop now is t)"

text \<open>
  \<^verbatim>\<open>playTurn\<close>.  The first argument is the random source, the second lists the readings
  of \<^verbatim>\<open>Date.now()\<close> during the call.  The console output is left out.
\<close>

definition startTurn :: "rnd \<Rightarrow> game \<Rightarrow> turn" where
  "startTurn r g = \<lparr>game = g, anyPlayerMoved = False, staleMateCounter = 0, rand = r\<rparr>"

definition playTurn :: "rnd \<Rightarrow> (nat \<Rightarrow> int) \<Rightarrow> game \<Rightarrow> error + (bool \<times> game)" where
  "playTurn r now g =
     (if \<not> gameActive g then Inr (False, g)
      else
        (case playersLoop now [0..<length (players g)] (startTurn r g) of
           Inl e \<Rightarrow> Inl e
         | Inr (Return t) \<Rightarrow> Inr (True, game t)
         | Inr (Proceed t) \<Rightarrow>
             (let g1 = (game t)\<lparr>roundDuration := elapsedSeconds (now 0) (game t)\<rparr>
              in if \<not> anyPlayerMoved t \<and> staleMateCounter t \<ge> length (players g1)
                 then (case endRound None (now 1) g1 of
                         Inl e \<Rightarrow> Inl e
                       | Inr g2 \<Rightarrow> Inr (True, g2))
                 else Inr (anyPlayerMoved t, g1))))"

section \<open>Auxiliary notions for the properties\<close>

text \<open>
  Every player has its entry in \<^verbatim>\<open>gameStats.playerStats\<close>.  The constructor creates the
  entry together with the player, and nothing removes one.
\<close>

definition statsReady :: "game \<Rightarrow> bool" where
  "statsReady g = list_all (\<lambda>p. playerStats (gameStats g) (name p) \<noteq> None) (players g)"

text \<open>A hand without cards, and a game of only this player, to build examples from.\<close>

definition bareHand :: player where
  "bareHand = \<lparr>name = ''Bot 1'', isBot = True, blitzPile = [], postPiles = [[], [], []],
      drawPile = [], drawRevealed = [], playsThisRound = 0, totalPlays = 0, wins = 0,
      strategy = Aggressive\<rparr>"

definition soloGame :: "player \<Rightarrow> game" where
  "soloGame p =
     \<lparr>players = [p], dutchPiles = (\<lambda>c. []), gameActive = True, winner = None,
      roundStartTime = Some 0, roundDuration = 0, roundNumber = 1, moveCount = 0,
      gameStats = \<lparr>totalGames = 0, averageRoundDuration = 0,
        playerStats = [name p \<mapsto> \<lparr>statWins = 0, statTotalPlays = 0, averagePlaysPerGame = 0\<rparr>]\<rparr>\<rparr>"

text \<open>The cards a hand holds in its own piles, and the cards on the shared Dutch piles.\<close>

definition handCards :: "player \<Rightarrow> card multiset" where
  "handCards p =
     mset (blitzPile p) + mset (drawPile p) + mset (drawRevealed p) + mset (concat (postPiles p))"

definition dutchCards :: "dutch \<Rightarrow> card multiset" where
  "dutchCards d = mset (concat (map d colors))"

text \<open>
  The first step of \<^verbatim>\<open>makeMove\<close>, the refresh of an empty revealed buffer, and the
  candidate moves that \<^verbatim>\<open>makeMove\<close> collects after it.
\<close>

definition refresh :: "player \<Rightarrow> player" where
  "refresh p = (if drawRevealed p = [] \<and> drawPile p \<noteq> [] then snd (drawCards p) else p)"

definition candidates :: "rnd \<Rightarrow> dutch \<Rightarrow> player \<Rightarrow> move list \<times> rnd" where
  "candidates r d p = collectMoves (refresh p) d (getAvailableCards (refresh p)) ([], r)"

text \<open>
  A candidate move is legal for a hand: its card is an available card, and its target
  accepts the card.
\<close>

definition legalMove :: "player \<Rightarrow> dutch \<Rightarrow> move \<Rightarrow> bool" where
  "legalMove p d m =
     (mcard m \<in> fst ` set (getAvailableCards p) \<and>
      (case mtarget m of
         Dutch \<Rightarrow> canPlayOn (mcard m) (topCard (d (color (mcard m))))
       | PostTarget \<Rightarrow>
           (case mpostPile m of
              None \<Rightarrow> False
            | Some k \<Rightarrow> k < length (postPiles p) \<and> canPostOn (mcard m) (topCard (postPiles p ! k)))))"

text \<open>The turn state that a part of \<^verbatim>\<open>playTurn\<close> ends in.\<close>

fun ctlTurn :: "ctl \<Rightarrow> turn" where
  "ctlTurn (Proceed t) = t"
| "ctlTurn (Return t) = t"

text \<open>
  A predicate \<open>P\<close> on turn states is kept by every step that \<^verbatim>\<open>playTurn\<close> takes for the
  player at index \<open>i\<close>, and the win check leads from \<open>P\<close> to \<open>R\<close>: the steps are a bot
  invocation that returned false, one that returned true with its bookkeeping, a draw that
  returned true, a draw that returned false with the stalemate vote, and \<^verbatim>\<open>endRound\<close>
  for a player whose blitz pile is empty.
\<close>

definition keeps :: "(nat \<Rightarrow> int) \<Rightarrow> nat \<Rightarrow> (turn \<Rightarrow> bool) \<Rightarrow> (turn \<Rightarrow> bool) \<Rightarrow> bool" where
  "keeps now i P R =
     ((\<forall>t t'. P t \<and> botMove i t = Inr (False, t') \<longrightarrow> P t') \<and>
      (\<forall>t t'. P t \<and> botMove i t = Inr (True, t') \<longrightarrow> P (countMove t')) \<and>
      (\<forall>t t'. P t \<and> drawStep i t = (True, t') \<longrightarrow> P t') \<and>
      (\<forall>t t'. P t \<and> drawStep i t = (False, t') \<longrightarrow>
          P (t'\<lparr>staleMateCounter := staleMateCounter t' + 1\<rparr>)) \<and>
      (\<forall>t g'. P t \<and> hasWon (players (game t) ! i) \<and> endRound (Some i) (now 0) (game t) = Inr g'
          \<longrightarrow> R (t\<lparr>game := g'\<rparr>)))"

text \<open>
  The hand that \<^verbatim>\<open>initializeCards\<close> deals when \<^verbatim>\<open>Math.random()\<close> returns 0 on every
  call: each step of the shuffle swaps \<^verbatim>\<open>deck[i]\<close> with \<^verbatim>\<open>deck[0]\<close>, which moves the
  red 1 from the front of the deck to its end; the first ten cards are the blitz pile and
  the last three are revealed.
\<close>

definition dealtHand :: player where
  "dealtHand = bareHand
     \<lparr>blitzPile := map (\<lambda>v. Card v Red) [2, 3, 4, 5, 6, 7, 8, 9, 10] @ [Card 1 Blue],
      drawPile := map (\<lambda>v. Card v Blue) [2, 3, 4, 5, 6, 7, 8, 9, 10] @
                  map (\<lambda>v. Card v Green) [1, 2, 3, 4, 5, 6, 7, 8, 9, 10] @
                  map (\<lambda>v. Card v Yellow) [1, 2, 3, 4, 5, 6, 7, 8],
      drawRevealed := [Card 1 Red, Card 10 Yellow, Card 9 Yellow]\<rparr>"

text \<open>Example: a hand whose blitz pile is the single red 1, alone in a game.\<close>

definition lastCardHand :: player where
  "lastCardHand = bareHand\<lparr>blitzPile := [Card 1 Red]\<rparr>"

text \<open>
  The game after one turn: the red 1 lies on its Dutch pile and on two post piles, and is
  still on the blitz pile.
\<close>

definition lastCardAfter :: game where
  "lastCardAfter = (soloGame lastCardHand)
     \<lparr>players := [lastCardHand\<lparr>postPiles := [[Card 1 Red], [Card 1 Red], []],
                   playsThisRound := 3, totalPlays := 3\<rparr>],
      dutchPiles := (\<lambda>c. [])(Red := [Card 1 Red]),
      moveCount := 3, roundDuration := 7\<rparr>"

text \<open>
  Example: a balanced bot with the red 1 on its blitz pile and the blue 1 revealed, and a
  random source that yields 0 four times and one half from then on.
\<close>

definition twoOnesHand :: player where
  "twoOnesHand = bareHand\<lparr>blitzPile := [Card 1 Red], drawRevealed := [Card 1 Blue],
                          strategy := Balanced\<rparr>"

definition lateHalfRnd :: rnd where
  "lateHalfRnd = (\<lambda>n. if n < 4 then unitZero else unitHalf)"

text \<open>A card of the deck has a value from 1 to 10; a hand holds only such cards.\<close>

definition validCard :: "card \<Rightarrow> bool" where
  "validCard c = (1 \<le> cvalue c \<and> cvalue c \<le> 10)"

definition validHand :: "player \<Rightarrow> bool" where
  "validHand p =
     list_all validCard (blitzPile p @ drawPile p @ drawRevealed p @ concat (postPiles p))"

text \<open>
  Example: late in a round of a single player, the red, blue and green Dutch piles are
  complete and the ten yellow cards are left in the hand.  No available card (the 9 on the
  blitz pile, the 5, 7 and 3 on the post piles, the revealed 8) fits a pile, and one card is
  left in the draw pile.
\<close>

definition stuckHand :: player where
  "stuckHand = bareHand
     \<lparr>blitzPile := [Card 1 Yellow, Card 2 Yellow, Card 9 Yellow],
      postPiles := [[Card 6 Yellow, Card 5 Yellow], [Card 7 Yellow], [Card 4 Yellow, Card 3 Yellow]],
      drawPile := [Card 10 Yellow],
      drawRevealed := [Card 8 Yellow],
      playsThisRound := 35, totalPlays := 35\<rparr>"

definition stuckGame :: game where
  "stuckGame = (soloGame stuckHand)
     \<lparr>dutchPiles := (\<lambda>c. if c = Yellow then [] else map (\<lambda>v. Card v c) [1..10]),
      moveCount := 40\<rparr>"

text \<open>
  A random source that always yields 0 and a clock that always reads 7000, for examples;
  the state in which the loop over the players leaves the turn of the example game, and the
  game after that turn.
\<close>

definition steadyRnd :: rnd where
  "steadyRnd = (\<lambda>n. unitZero)"

definition steadyClock :: "nat \<Rightarrow> int" where
  "steadyClock = (\<lambda>k. 7000)"

definition stuckEnd :: turn where
  "stuckEnd =
     \<lparr>game = stuckGame\<lparr>players := [stuckHand\<lparr>drawPile := [],
                 drawRevealed := [Card 10 Yellow, Card 8 Yellow]\<rparr>], moveCount := 41\<rparr>,
      anyPlayerMoved = True, staleMateCounter = 1, rand = steadyRnd\<rparr>"

definition stuckAfter :: game where
  "stuckAfter = stuckGame\<lparr>players := [stuckHand\<lparr>drawPile := [],
                 drawRevealed := [Card 10 Yellow, Card 8 Yellow]\<rparr>], moveCount := 41,
                 roundDuration := 7\<rparr>"

text \<open>The example game after one more turn: the round has ended without a winner.\<close>

definition stuckOver :: game where
  "stuckOver = stuckAfter
     \<lparr>gameActive := False,
      gameStats := \<lparr>totalGames = 1, averageRoundDuration = 7,
        playerStats = [''Bot 1'' \<mapsto> \<lparr>statWins = 0, statTotalPlays = 35, averagePlaysPerGame = 35\<rparr>]\<rparr>\<rparr>"

text \<open>
  The operations on a game: \<^verbatim>\<open>startNewRound\<close>, \<^verbatim>\<open>playTurn\<close>, and a single invocation of
  the bot of the player at an index (one of the steps inside \<^verbatim>\<open>playTurn\<close>).  A run applies a
  list of them, starting from a game made by the constructor.
\<close>

datatype game_op = StartNewRound rnd int | PlayTurn rnd "nat \<Rightarrow> int" | BotPlacement nat rnd

fun applyGameOp :: "game_op \<Rightarrow> game \<Rightarrow> error + game" where
  "applyGameOp (StartNewRound r now) g = Inr (startNewRound r now g)"
| "applyGameOp (PlayTurn r now) g =
     (case playTurn r now g of Inl e \<Rightarrow> Inl e | Inr (b, g') \<Rightarrow> Inr g')"
| "applyGameOp (BotPlacement i r) g =
     (if i < length (players g)
      then (case makeMove r (dutchPiles g) (players g ! i) of
              Inl e \<Rightarrow> Inl e
            | Inr (b, p', d', r') \<Rightarrow> Inr (g\<lparr>players := (players g)[i := p'], dutchPiles := d'\<rparr>))
      else Inl TypeError)"

fun runGame :: "game_op list \<Rightarrow> game \<Rightarrow> error + game" where
  "runGame [] g = Inr g"
| "runGame (a # as) g = (case applyGameOp a g of Inl e \<Rightarrow> Inl e | Inr g' \<Rightarrow> runGame as g')"

text \<open>
  A Dutch pile of a colour is built: from bottom to top it holds the values 1 to its
  length, at most 10, all of that colour.
\<close>

definition foundationPile :: "color \<Rightarrow> card list \<Rightarrow> bool" where
  "foundationPile c pile =
     (length pile \<le> 10 \<and> pile = map (\<lambda>v. Card v c) [1..int (length pile)])"

definition foundationsBuilt :: "dutch \<Rightarrow> bool" where
  "foundationsBuilt d = list_all (\<lambda>c. foundationPile c (d c)) colors"

definition soundGame :: "game \<Rightarrow> bool" where
  "soundGame g = (list_all validHand (players g) \<and> foundationsBuilt (dutchPiles g))"

section \<open>Drawing and placing\<close>

text \<open>
  C4 (amended).  \<^verbatim>\<open>drawCards\<close> returns false exactly when the draw pile is empty,
  whatever the revealed buffer holds; it returns true whenever the draw pile is non-empty.
\<close>

theorem drawCards_false_iff: "(\<not> fst (drawCards p)) = (drawPile p = [])"
  by (simp add: drawCards_def split: prod.splits)

text \<open>
  C4 as stated fails: with an empty draw pile and one revealed card, \<^verbatim>\<open>drawCards\<close>
  returns false although the two are not both empty.
\<close>

theorem drawCards_revealed_only:
  "\<not> fst (drawCards (bareHand\<lparr>drawRevealed := [Card 5 Red]\<rparr>)) \<and>
   \<not> (drawPile (bareHand\<lparr>drawRevealed := [Card 5 Red]\<rparr>) = [] \<and>
      drawRevealed (bareHand\<lparr>drawRevealed := [Card 5 Red]\<rparr>) = [])"
  by (simp add: drawCards_def bareHand_def)

text \<open>
  C6.  A placement that fails the predicate of its destination (the post pile \<open>k\<close> of
  the hand, or the Dutch pile of the card's colour) returns false and leaves the hand, with
  its piles and its two play counters, and the Dutch piles as they were.
\<close>

theorem playCard_illegal_unchanged:
  "(k < length (postPiles p) \<and> \<not> canPostOn c (topCard (postPiles p ! k))
      \<longrightarrow> playCard c src d (Some k) p = Inr (False, p, d)) \<and>
   (\<not> canPlayOn c (topCard (d (color c))) \<longrightarrow> playCard c src d None p = Inr (False, p, d))"
  by (simp add: playCard_def)

theorem playCard_illegal_unchanged_witness:
  "(0 < length (postPiles (bareHand\<lparr>postPiles := [[Card 3 Red], [], []]\<rparr>)) \<and>
    \<not> canPostOn (Card 5 Blue) (topCard (postPiles (bareHand\<lparr>postPiles := [[Card 3 Red], [], []]\<rparr>) ! 0))) \<and>
   playCard (Card 5 Blue) (Entry Blitz) (\<lambda>c. []) (Some 0) (bareHand\<lparr>postPiles := [[Card 3 Red], [], []]\<rparr>)
     = Inr (False, bareHand\<lparr>postPiles := [[Card 3 Red], [], []]\<rparr>, \<lambda>c. []) \<and>
   \<not> canPlayOn (Card 5 Blue) (topCard ((\<lambda>c. []) (color (Card 5 Blue)))) \<and>
   playCard (Card 5 Blue) (Entry Blitz) (\<lambda>c. []) None (bareHand\<lparr>postPiles := [[Card 3 Red], [], []]\<rparr>)
     = Inr (False, bareHand\<lparr>postPiles := [[Card 3 Red], [], []]\<rparr>, \<lambda>c. [])"
proof -
  let ?p = "bareHand\<lparr>postPiles := [[Card 3 Red], [], []]\<rparr>"
  have h1: "0 < length (postPiles ?p) \<and> \<not> canPostOn (Card 5 Blue) (topCard (postPiles ?p ! 0))"
    by (simp add: bareHand_def topCard_def)
  have h2: "\<not> canPlayOn (Card 5 Blue) (topCard ((\<lambda>c. []) (color (Card 5 Blue))))"
    by (simp add: topCard_def)
  from playCard_illegal_unchanged [of 0 ?p "Card 5 Blue" "Entry Blitz" "\<lambda>c. []"] h1 h2
  show ?thesis by blast
qed

section \<open>Statistics\<close>

text \<open>The loop over the players finds every entry and keeps the set of keys.\<close>

lemma updatePlayerStats_ok:
  "\<forall>p\<in>set ps. m (name p) \<noteq> None \<Longrightarrow> \<exists>m'. updatePlayerStats n ps m = Inr m' \<and> dom m' = dom m"
proof (induction ps arbitrary: m)
  case Nil
  then show ?case by simp
next
  case (Cons p ps)
  from Cons.prems obtain s where s: "m (name p) = Some s" by auto
  let ?m = "m(name p \<mapsto> s\<lparr>statWins := wins p, statTotalPlays := totalPlays p,
                  averagePlaysPerGame := jsRound (real (totalPlays p) / real n)\<rparr>)"
  have "\<forall>q\<in>set ps. ?m (name q) \<noteq> None" using Cons.prems by auto
  from Cons.IH [OF this] obtain m' where "updatePlayerStats n ps ?m = Inr m'" "dom m' = dom ?m"
    by blast
  moreover have "dom ?m = dom m" using s by auto
  ultimately show ?case using s by simp
qed

lemma updatePlayerStats_other:
  "updatePlayerStats n ps m = Inr m' \<Longrightarrow> x \<notin> name ` set ps \<Longrightarrow> m' x = m x"
  by (induction ps arbitrary: m) (auto split: option.splits)

lemma updatePlayerStats_entry:
  "updatePlayerStats n ps m = Inr m' \<Longrightarrow> distinct (map name ps) \<Longrightarrow> p \<in> set ps \<Longrightarrow>
   \<exists>s. m' (name p) = Some s \<and> statWins s = wins p \<and> statTotalPlays s = totalPlays p \<and>
       averagePlaysPerGame s = jsRound (real (totalPlays p) / real n)"
proof (induction ps arbitrary: m)
  case Nil
  then show ?case by simp
next
  case (Cons q ps)
  from Cons.prems(1) obtain s where s: "m (name q) = Some s"
    by (auto split: option.splits)
  let ?m = "m(name q \<mapsto> s\<lparr>statWins := wins q, statTotalPlays := totalPlays q,
                  averagePlaysPerGame := jsRound (real (totalPlays q) / real n)\<rparr>)"
  from Cons.prems(1) s have rest: "updatePlayerStats n ps ?m = Inr m'" by simp
  show ?case
  proof (cases "p = q")
    case True
    from Cons.prems(2) have "name q \<notin> name ` set ps" by auto
    from updatePlayerStats_other [OF rest this] True show ?thesis by simp
  next
    case False
    with Cons.prems have "p \<in> set ps" "distinct (map name ps)" by auto
    from Cons.IH [OF rest this(2) this(1)] show ?thesis .
  qed
qed

lemma updateStats_ok:
  assumes "statsReady g"
  shows "\<exists>g'. updateStats g = Inr g' \<and> players g' = players g \<and> statsReady g' \<and>
     dutchPiles g' = dutchPiles g \<and> gameActive g' = gameActive g \<and> winner g' = winner g \<and>
     moveCount g' = moveCount g \<and> roundDuration g' = roundDuration g"
proof -
  from assms have "\<forall>p\<in>set (players g). playerStats (gameStats g) (name p) \<noteq> None"
    by (simp add: statsReady_def list_all_iff)
  from updatePlayerStats_ok [OF this, of "totalGames (gameStats g) + 1"]
  obtain m' where m': "updatePlayerStats (totalGames (gameStats g) + 1) (players g) (playerStats (gameStats g)) = Inr m'"
    "dom m' = dom (playerStats (gameStats g))" by blast
  from assms m'(2) have "list_all (\<lambda>p. m' (name p) \<noteq> None) (players g)"
    by (auto simp: statsReady_def list_all_iff dom_def)
  with m'(1) show ?thesis
    by (simp add: updateStats_def Let_def statsReady_def)
qed

text \<open>
  C8.  The statistics update adds one to \<^verbatim>\<open>totalGames\<close>, sets the average round duration
  to round((prevAvg * (n - 1) + duration) / n) for the new count \<open>n\<close>, and sets each
  player's average plays per game to round(totalPlays / n).
\<close>

theorem updateStats_averages:
  assumes "statsReady g" and "distinct (map name (players g))"
  shows "\<exists>g'. updateStats g = Inr g' \<and>
     totalGames (gameStats g') = totalGames (gameStats g) + 1 \<and>
     averageRoundDuration (gameStats g') =
       jsRound (real_of_int (averageRoundDuration (gameStats g) * (int (totalGames (gameStats g')) - 1)
                  + roundDuration g) / real (totalGames (gameStats g'))) \<and>
     (\<forall>p\<in>set (players g). \<exists>s. playerStats (gameStats g') (name p) = Some s \<and>
        averagePlaysPerGame s = jsRound (real (totalPlays p) / real (totalGames (gameStats g'))))"
proof -
  from updateStats_ok [OF assms(1)] obtain g' where g': "updateStats g = Inr g'" by blast
  then obtain m' where m': "updatePlayerStats (totalGames (gameStats g) + 1) (players g) (playerStats (gameStats g)) = Inr m'"
    and eq: "g' = g\<lparr>gameStats := (gameStats g)\<lparr>totalGames := totalGames (gameStats g) + 1,
         averageRoundDuration := jsRound (real_of_int (averageRoundDuration (gameStats g) * (int (totalGames (gameStats g) + 1) - 1) + roundDuration g) / real (totalGames (gameStats g) + 1)),
         playerStats := m'\<rparr>\<rparr>"
    by (auto simp: updateStats_def Let_def split: sum.splits)
  have "\<forall>p\<in>set (players g). \<exists>s. m' (name p) = Some s \<and>
        averagePlaysPerGame s = jsRound (real (totalPlays p) / real (totalGames (gameStats g) + 1))"
    using updatePlayerStats_entry [OF m' assms(2)] by blast
  with g' eq show ?thesis by simp
qed

text \<open>
  Two rounds of 10 and 20 seconds: the average is 10 after the first and 15 after the
  second.
\<close>

theorem updateStats_averages_witness:
  "statsReady (soloGame bareHand\<lparr>roundDuration := 10\<rparr>) \<and>
   distinct (map name (players (soloGame bareHand\<lparr>roundDuration := 10\<rparr>))) \<and>
   (\<exists>g1. updateStats (soloGame bareHand\<lparr>roundDuration := 10\<rparr>) = Inr g1 \<and>
      totalGames (gameStats g1) = 1 \<and> averageRoundDuration (gameStats g1) = 10 \<and>
      (\<exists>g2. updateStats (g1\<lparr>roundDuration := 20\<rparr>) = Inr g2 \<and>
         totalGames (gameStats g2) = 2 \<and> averageRoundDuration (gameStats g2) = 15))"
proof -
  let ?g = "soloGame bareHand\<lparr>roundDuration := 10\<rparr>"
  have r: "statsReady ?g" and d: "distinct (map name (players ?g))"
    by (simp_all add: statsReady_def soloGame_def)
  from updateStats_averages [OF r d] obtain g1 where g1: "updateStats ?g = Inr g1"
    "totalGames (gameStats g1) = totalGames (gameStats ?g) + 1"
    "averageRoundDuration (gameStats g1) =
       jsRound (real_of_int (averageRoundDuration (gameStats ?g) * (int (totalGames (gameStats g1)) - 1)
                  + roundDuration ?g) / real (totalGames (gameStats g1)))"
    by blast
  from g1(2) have n1: "totalGames (gameStats g1) = 1" by (simp add: soloGame_def)
  from g1(3) n1 have a1: "averageRoundDuration (gameStats g1) = 10"
    by (simp add: soloGame_def jsRound_def)
  from updateStats_ok [OF r] g1(1) have p1: "players g1 = players ?g" "statsReady g1" by auto
  let ?h = "g1\<lparr>roundDuration := 20\<rparr>"
  have r2: "statsReady ?h" using p1(2) by (simp add: statsReady_def)
  have d2: "distinct (map name (players ?h))" using p1(1) d by simp
  from updateStats_averages [OF r2 d2] obtain g2 where g2: "updateStats ?h = Inr g2"
    "totalGames (gameStats g2) = totalGames (gameStats ?h) + 1"
    "averageRoundDuration (gameStats g2) =
       jsRound (real_of_int (averageRoundDuration (gameStats ?h) * (int (totalGames (gameStats g2)) - 1)
                  + roundDuration ?h) / real (totalGames (gameStats g2)))"
    by blast
  from g2(2) n1 have n2: "totalGames (gameStats g2) = 2" by simp
  from g2(3) n2 a1 have a2: "averageRoundDuration (gameStats g2) = 15"
    by (simp add: jsRound_def)
  from r d g1(1) n1 a1 g2(1) n2 a2 show ?thesis by blast
qed

section \<open>Moving a card\<close>

text \<open>
  Facts about lists and multisets, then about \<^verbatim>\<open>drawCards\<close>, \<^verbatim>\<open>playCard\<close> and the
  candidate moves of the bot, used by the properties below.
\<close>

lemma mset_butlast_last: "xs \<noteq> [] \<Longrightarrow> add_mset (last xs) (mset (butlast xs)) = mset xs"
  by (induction xs) auto

lemma mset_remove_nth:
  "i < length xs \<Longrightarrow> add_mset (xs ! i) (mset (take i xs @ drop (Suc i) xs)) = mset xs"
proof -
  assume "i < length xs"
  then have "xs = take i xs @ xs ! i # drop (Suc i) xs" by (rule id_take_nth_drop)
  then have "mset xs = mset (take i xs @ xs ! i # drop (Suc i) xs)" by simp
  then show ?thesis by simp
qed

lemma mset_concat_update:
  "k < length pp \<Longrightarrow> mset (concat (pp[k := x])) + mset (pp ! k) = mset (concat pp) + mset x"
proof (induction pp arbitrary: k)
  case Nil
  then show ?case by simp
next
  case (Cons a pp)
  show ?case
  proof (cases k)
    case 0
    then show ?thesis by simp
  next
    case (Suc j)
    with Cons.prems have "j < length pp" by simp
    from Cons.IH [OF this] Suc show ?thesis by (simp add: ac_simps)
  qed
qed

lemma mset_concat_push:
  "k < length pp \<Longrightarrow> mset (concat (pp[k := pp ! k @ [c]])) = add_mset c (mset (concat pp))"
  using mset_concat_update [of k pp "pp ! k @ [c]"] by simp

lemma mset_concat_pop:
  assumes "k < length pp" and "pp ! k \<noteq> []"
  shows "add_mset (last (pp ! k)) (mset (concat (pp[k := butlast (pp ! k)]))) = mset (concat pp)"
proof -
  let ?X = "mset (concat (pp[k := butlast (pp ! k)]))"
  let ?B = "mset (butlast (pp ! k))"
  have "?X + mset (pp ! k) = mset (concat pp) + ?B"
    by (rule mset_concat_update [OF assms(1)])
  moreover have "mset (pp ! k) = add_mset (last (pp ! k)) ?B"
    by (rule mset_butlast_last [OF assms(2), symmetric])
  ultimately have "add_mset (last (pp ! k)) ?X + ?B = mset (concat pp) + ?B" by simp
  then show ?thesis by simp
qed

lemma reveal_mset:
  "reveal n dp rv = (dp', rv') \<Longrightarrow> mset dp' + mset rv' = mset dp + mset rv"
proof (induction n arbitrary: dp rv)
  case 0
  then show ?case by simp
next
  case (Suc n)
  show ?case
  proof (cases "dp = []")
    case True
    with Suc.prems show ?thesis by simp
  next
    case False
    with Suc.prems have "reveal n (butlast dp) (rv @ [last dp]) = (dp', rv')" by simp
    from Suc.IH [OF this]
    have "mset dp' + mset rv' = add_mset (last dp) (mset (butlast dp)) + mset rv" by simp
    with mset_butlast_last [OF False] show ?thesis by simp
  qed
qed

lemma drawCards_handCards: "handCards (snd (drawCards p)) = handCards p"
proof (cases "drawPile p = []")
  case True
  then show ?thesis by (simp add: drawCards_def)
next
  case False
  show ?thesis
  proof (cases "drawRevealed p = []")
    case True
    obtain dp rv where a: "reveal 3 (drawPile p) [] = (dp, rv)" by fastforce
    from reveal_mset [OF a] a True False show ?thesis
      by (simp add: drawCards_def handCards_def)
  next
    case nonempty: False
    obtain dp rv where b: "reveal 3 (rev (drawRevealed p) @ drawPile p) [] = (dp, rv)" by fastforce
    from reveal_mset [OF b] b nonempty False show ?thesis
      by (simp add: drawCards_def handCards_def ac_simps)
  qed
qed

lemma available_iff:
  "(c, src) \<in> set (getAvailableCards p) \<longleftrightarrow>
     (src = Blitz \<and> blitzPile p \<noteq> [] \<and> c = last (blitzPile p)) \<or>
     (\<exists>i. src = Post i \<and> i < length (postPiles p) \<and> postPiles p ! i \<noteq> [] \<and> c = last (postPiles p ! i)) \<or>
     (\<exists>i. src = Draw i \<and> i < length (drawRevealed p) \<and> c = drawRevealed p ! i)"
  by (auto simp: getAvailableCards_def split: if_splits)


lemma dutchCards_push: "dutchCards (d(color c := d (color c) @ [c])) = add_mset c (dutchCards d)"
  by (cases "color c") (simp_all add: dutchCards_def colors_def)

lemma canPostOn_self: "xs \<noteq> [] \<Longrightarrow> \<not> canPostOn (last xs) (topCard xs)"
  by (simp add: topCard_def)

text \<open>
  \<^verbatim>\<open>playCard\<close> handed the entry of an available card: the card leaves its source, and
  the cards of the hand and of the Dutch piles together stay the same.
\<close>

lemma available_after_push:
  assumes "(c, src) \<in> set (getAvailableCards p)" and "k < length (postPiles p)"
    and "canPostOn c (topCard (postPiles p ! k))"
  shows "(c, src) \<in> set (getAvailableCards (p\<lparr>postPiles := (postPiles p)[k := postPiles p ! k @ [c]]\<rparr>))"
proof -
  have "src \<noteq> Post k"
  proof
    assume "src = Post k"
    with assms(1) have "postPiles p ! k \<noteq> []" "c = last (postPiles p ! k)"
      by (auto simp: available_iff)
    with assms(3) canPostOn_self show False by blast
  qed
  with assms(1,2) show ?thesis
    by (auto simp: available_iff nth_list_update)
qed

lemma removeCard_handCards:
  assumes "(c, src) \<in> set (getAvailableCards p)" and "removeCardFromSource (Entry src) p = Inr p'"
  shows "add_mset c (handCards p') = handCards p"
proof (cases src)
  case Blitz
  with assms have "blitzPile p \<noteq> []" "c = last (blitzPile p)"
    "p' = p\<lparr>blitzPile := butlast (blitzPile p)\<rparr>"
    by (auto simp: available_iff removeCardFromSource_def)
  with mset_butlast_last [of "blitzPile p"] show ?thesis
    by (simp add: handCards_def)
next
  case (Post i)
  with assms have "i < length (postPiles p)" "postPiles p ! i \<noteq> []" "c = last (postPiles p ! i)"
    "p' = p\<lparr>postPiles := (postPiles p)[i := butlast (postPiles p ! i)]\<rparr>"
    by (auto simp: available_iff removeCardFromSource_def)
  with mset_concat_pop [of i "postPiles p"] show ?thesis
    by (simp add: handCards_def)
next
  case (Draw i)
  with assms have "i < length (drawRevealed p)" "c = drawRevealed p ! i"
    "p' = p\<lparr>drawRevealed := take i (drawRevealed p) @ drop (Suc i) (drawRevealed p)\<rparr>"
    by (auto simp: available_iff removeCardFromSource_def)
  with mset_remove_nth [of i "drawRevealed p"] show ?thesis
    by (simp add: handCards_def)
qed

lemma playCard_False: "playCard c src d tgt p = Inr (False, p', d') \<Longrightarrow> p' = p \<and> d' = d"
  by (auto simp: playCard_def split: option.splits if_splits sum.splits)

lemma playCard_entry_conserves:
  assumes "(c, src) \<in> set (getAvailableCards p)"
    and "playCard c (Entry src) d tgt p = Inr (b, p', d')"
  shows "handCards p' + dutchCards d' = handCards p + dutchCards d"
proof (cases b)
  case False
  with playCard_False assms(2) show ?thesis by fastforce
next
  case True
  show ?thesis
  proof (cases tgt)
    case None
    with True assms(2) obtain q' where q': "removeCardFromSource (Entry src) p = Inr q'"
      and p': "p' = q'\<lparr>playsThisRound := playsThisRound q' + 1, totalPlays := totalPlays q' + 1\<rparr>"
      and d: "d' = d(color c := d (color c) @ [c])"
      by (auto simp: playCard_def split: sum.splits if_splits)
    from removeCard_handCards [OF assms(1) q'] have "add_mset c (handCards q') = handCards p" .
    moreover have "handCards p' = handCards q'" using p' by (simp add: handCards_def)
    ultimately show ?thesis using d by (simp add: dutchCards_push)
  next
    case (Some k)
    let ?q = "p\<lparr>postPiles := (postPiles p)[k := postPiles p ! k @ [c]]\<rparr>"
    from Some True assms(2) have k: "k < length (postPiles p)"
      and ok: "canPostOn c (topCard (postPiles p ! k))"
      by (auto simp: playCard_def split: if_splits)
    with Some True assms(2) obtain q' where q': "removeCardFromSource (Entry src) ?q = Inr q'"
      and p': "p' = q'\<lparr>playsThisRound := playsThisRound q' + 1, totalPlays := totalPlays q' + 1\<rparr>"
      and d: "d' = d"
      by (auto simp: playCard_def split: sum.splits)
    from removeCard_handCards [OF available_after_push [OF assms(1) k ok] q']
    have "add_mset c (handCards q') = handCards ?q" .
    moreover have "handCards ?q = add_mset c (handCards p)"
      using k by (simp add: handCards_def mset_concat_push)
    moreover have "handCards p' = handCards q'" using p' by (simp add: handCards_def)
    ultimately show ?thesis using d by simp
  qed
qed

text \<open>
  \<^verbatim>\<open>playCard\<close> handed only the string, as the bot does: the card goes on its target and
  stays where it was.
\<close>

lemma playCard_name_post:
  assumes "playCard c (Name n) d (Some k) p = Inr (True, p', d')"
  shows "d' = d"
    and "p' = p\<lparr>postPiles := (postPiles p)[k := postPiles p ! k @ [c]],
                 playsThisRound := playsThisRound p + 1, totalPlays := totalPlays p + 1\<rparr>"
    and "k < length (postPiles p)" and "canPostOn c (topCard (postPiles p ! k))"
    and "handCards p' = add_mset c (handCards p)"
proof -
  from assms show k: "k < length (postPiles p)" and "canPostOn c (topCard (postPiles p ! k))"
    by (auto simp: playCard_def split: if_splits)
  from assms show "d' = d"
    and p': "p' = p\<lparr>postPiles := (postPiles p)[k := postPiles p ! k @ [c]],
                 playsThisRound := playsThisRound p + 1, totalPlays := totalPlays p + 1\<rparr>"
    by (auto simp: playCard_def removeCardFromSource_def split: if_splits)
  from p' k show "handCards p' = add_mset c (handCards p)"
    by (simp add: handCards_def mset_concat_push)
qed

lemma playCard_name_dutch:
  assumes "playCard c (Name n) d None p = Inr (True, p', d')"
  shows "d' = d(color c := d (color c) @ [c])"
    and "p' = p\<lparr>playsThisRound := playsThisRound p + 1, totalPlays := totalPlays p + 1\<rparr>"
    and "canPlayOn c (topCard (d (color c)))"
    and "handCards p' = handCards p"
proof -
  from assms show "canPlayOn c (topCard (d (color c)))"
    by (auto simp: playCard_def split: if_splits)
  from assms show "d' = d(color c := d (color c) @ [c])"
    and p': "p' = p\<lparr>playsThisRound := playsThisRound p + 1, totalPlays := totalPlays p + 1\<rparr>"
    by (auto simp: playCard_def removeCardFromSource_def split: if_splits)
  from p' show "handCards p' = handCards p" by (simp add: handCards_def)
qed

lemma playCard_name_fields:
  assumes "playCard c (Name n) d tgt p = Inr (True, p', d')"
  shows "name p' = name p" and "totalPlays p' = totalPlays p + 1" and "wins p' = wins p"
    and "strategy p' = strategy p" and "length (postPiles p') = length (postPiles p)"
    and "blitzPile p' = blitzPile p" and "drawPile p' = drawPile p"
    and "drawRevealed p' = drawRevealed p"
  using assms
  by (auto simp: playCard_def removeCardFromSource_def split: option.splits if_splits)

lemma playCard_name_ok:
  shows "canPlayOn c (topCard (d (color c))) \<Longrightarrow>
         \<exists>p' d'. playCard c (Name n) d None p = Inr (True, p', d')"
    and "k < length (postPiles p) \<Longrightarrow> canPostOn c (topCard (postPiles p ! k)) \<Longrightarrow>
         \<exists>p' d'. playCard c (Name n) d (Some k) p = Inr (True, p', d')"
  by (auto simp: playCard_def removeCardFromSource_def)

text \<open>The candidate moves of the bot.\<close>

lemma postMoves_prop:
  assumes "\<forall>m\<in>set ms. P m"
    and "\<And>i r'. i \<in> set is \<Longrightarrow> canPostOn c (topCard (postPiles p ! i)) \<Longrightarrow>
           P \<lparr>mcard = c, msource = src, mtarget = PostTarget, mpostPile = Some i,
              priority = fst (getMovePriority (strategy p) r' c (Name src) PostTarget)\<rparr>"
  shows "\<forall>m\<in>set (fst (postMoves p c src is (ms, r))). P m"
  using assms
proof (induction "is" arbitrary: ms r)
  case Nil
  then show ?case by simp
next
  case (Cons i "is")
  let ?m = "\<lparr>mcard = c, msource = src, mtarget = PostTarget, mpostPile = Some i,
              priority = fst (getMovePriority (strategy p) r c (Name src) PostTarget)\<rparr>"
  have rest: "\<And>j r'. j \<in> set is \<Longrightarrow> canPostOn c (topCard (postPiles p ! j)) \<Longrightarrow>
           P \<lparr>mcard = c, msource = src, mtarget = PostTarget, mpostPile = Some j,
              priority = fst (getMovePriority (strategy p) r' c (Name src) PostTarget)\<rparr>"
    using Cons.prems(2) by simp
  show ?case
  proof (cases "canPostOn c (topCard (postPiles p ! i)) \<and>
            (case topCard (postPiles p ! i) of None \<Rightarrow> True
             | Some t \<Rightarrow> cvalue c < 8 \<or> cvalue t - cvalue c \<ge> 2)")
    case True
    then have "P ?m" using Cons.prems(2) [of i r] by simp
    with Cons.prems(1) have "\<forall>m\<in>set (ms @ [?m]). P m" by simp
    from Cons.IH [OF this rest, of "snd (getMovePriority (strategy p) r c (Name src) PostTarget)"] True
    show ?thesis by (simp add: case_prod_beta)
  next
    case False
    from Cons.IH [OF Cons.prems(1) rest, of r] False
    show ?thesis by (auto simp: Let_def)
  qed
qed

lemma postMoves_mono: "set ms \<subseteq> set (fst (postMoves p c src is (ms, r)))"
proof (induction "is" arbitrary: ms r)
  case Nil
  then show ?case by simp
next
  case (Cons i "is")
  let ?m = "\<lparr>mcard = c, msource = src, mtarget = PostTarget, mpostPile = Some i,
              priority = fst (getMovePriority (strategy p) r c (Name src) PostTarget)\<rparr>"
  from Cons.IH [of "ms @ [?m]" "snd (getMovePriority (strategy p) r c (Name src) PostTarget)"]
       Cons.IH [of ms r]
  show ?case by (auto simp: case_prod_beta Let_def simp del: canPostOn.simps)
qed

lemma collectMoves_prop:
  assumes "\<forall>m\<in>set ms. P m"
    and "\<And>c src i r'. (c, src) \<in> set avail \<Longrightarrow> i < length (postPiles p) \<Longrightarrow>
           canPostOn c (topCard (postPiles p ! i)) \<Longrightarrow>
           P \<lparr>mcard = c, msource = sourceName src, mtarget = PostTarget, mpostPile = Some i,
              priority = fst (getMovePriority (strategy p) r' c (Name (sourceName src)) PostTarget)\<rparr>"
    and "\<And>c src r'. (c, src) \<in> set avail \<Longrightarrow> canPlayOn c (topCard (d (color c))) \<Longrightarrow>
           P \<lparr>mcard = c, msource = sourceName src, mtarget = Dutch, mpostPile = None,
              priority = fst (getMovePriority (strategy p) r' c (Name (sourceName src)) Dutch)\<rparr>"
  shows "\<forall>m\<in>set (fst (collectMoves p d avail (ms, r))). P m"
  using assms
proof (induction avail arbitrary: ms r)
  case Nil
  then show ?case by simp
next
  case (Cons a avail)
  obtain c src where a: "a = (c, src)" by (cases a)
  let ?acc = "(if canPlayOn c (topCard (d (color c)))
           then (let (pr, r') = getMovePriority (strategy p) r c (Name (sourceName src)) Dutch
                 in (ms @ [\<lparr>mcard = c, msource = sourceName src, mtarget = Dutch,
                                mpostPile = None, priority = pr\<rparr>], r'))
           else (ms, r))"
  have acc: "\<forall>m\<in>set (fst ?acc). P m"
    using Cons.prems(1) Cons.prems(3) [of c src r] a by (simp add: case_prod_beta)
  have "\<forall>m\<in>set (fst (postMoves p c (sourceName src) [0..<length (postPiles p)] (fst ?acc, snd ?acc))). P m"
    by (rule postMoves_prop [OF acc]) (use Cons.prems(2) a in simp)
  then have post: "\<forall>m\<in>set (fst (postMoves p c (sourceName src) [0..<length (postPiles p)] ?acc)). P m"
    by simp
  obtain ms' r' where mr: "postMoves p c (sourceName src) [0..<length (postPiles p)] ?acc = (ms', r')"
    by fastforce
  with post have ms': "\<forall>m\<in>set ms'. P m" by simp
  have "\<forall>m\<in>set (fst (collectMoves p d avail (ms', r'))). P m"
    by (rule Cons.IH [OF ms']) (use Cons.prems(2,3) in auto)
  with mr a show ?case by simp
qed

lemma collectMoves_mono: "set ms \<subseteq> set (fst (collectMoves p d avail (ms, r)))"
proof (induction avail arbitrary: ms r)
  case Nil
  then show ?case by simp
next
  case (Cons a avail)
  obtain c src where a: "a = (c, src)" by (cases a)
  let ?acc = "(if canPlayOn c (topCard (d (color c)))
           then (let (pr, r') = getMovePriority (strategy p) r c (Name (sourceName src)) Dutch
                 in (ms @ [\<lparr>mcard = c, msource = sourceName src, mtarget = Dutch,
                                mpostPile = None, priority = pr\<rparr>], r'))
           else (ms, r))"
  obtain ms' r' where mr: "postMoves p c (sourceName src) [0..<length (postPiles p)] ?acc = (ms', r')"
    by fastforce
  have mr': "postMoves p c (sourceName src) [0..<length (postPiles p)] (fst ?acc, snd ?acc) = (ms', r')"
    using mr by simp
  have "set ms \<subseteq> set (fst ?acc)" by (auto simp: case_prod_beta)
  also have "\<dots> \<subseteq> set ms'"
    using postMoves_mono [of "fst ?acc" p c "sourceName src" "[0..<length (postPiles p)]" "snd ?acc"]
    unfolding mr' by simp
  also have "\<dots> \<subseteq> set (fst (collectMoves p d avail (ms', r')))" by (rule Cons.IH)
  finally show ?case using mr a by simp
qed

lemma collectMoves_has_dutch:
  assumes "(c, src) \<in> set avail" and "canPlayOn c (topCard (d (color c)))"
  shows "\<exists>m\<in>set (fst (collectMoves p d avail (ms, r))).
           mcard m = c \<and> msource m = sourceName src \<and> mtarget m = Dutch"
  using assms(1)
proof (induction avail arbitrary: ms r)
  case Nil
  then show ?case by simp
next
  case (Cons a avail)
  obtain c' src' where a: "a = (c', src')" by (cases a)
  let ?acc = "(if canPlayOn c' (topCard (d (color c')))
           then (let (pr, r') = getMovePriority (strategy p) r c' (Name (sourceName src')) Dutch
                 in (ms @ [\<lparr>mcard = c', msource = sourceName src', mtarget = Dutch,
                                mpostPile = None, priority = pr\<rparr>], r'))
           else (ms, r))"
  obtain ms' r' where mr: "postMoves p c' (sourceName src') [0..<length (postPiles p)] ?acc = (ms', r')"
    by fastforce
  show ?case
  proof (cases "(c, src) = (c', src')")
    case True
    with assms(2) have "\<exists>m\<in>set (fst ?acc). mcard m = c \<and> msource m = sourceName src \<and> mtarget m = Dutch"
      by (simp add: case_prod_beta)
    moreover have "postMoves p c' (sourceName src') [0..<length (postPiles p)] (fst ?acc, snd ?acc) = (ms', r')"
      using mr by simp
    then have "set (fst ?acc) \<subseteq> set ms'"
      using postMoves_mono [of "fst ?acc" p c' "sourceName src'" "[0..<length (postPiles p)]" "snd ?acc"]
      by simp
    moreover have "set ms' \<subseteq> set (fst (collectMoves p d avail (ms', r')))"
      by (rule collectMoves_mono)
    ultimately show ?thesis using mr a by auto
  next
    case False
    with Cons.prems a have "(c, src) \<in> set avail" by auto
    from Cons.IH [OF this, of ms' r'] mr a show ?thesis by simp
  qed
qed

lemma candidates_legal: "\<forall>m\<in>set (fst (candidates r d p)). legalMove (refresh p) d m"
  unfolding candidates_def
  by (rule collectMoves_prop) (force simp: legalMove_def)+

lemma hd_sort_key_in: "xs \<noteq> [] \<Longrightarrow> hd (sort_key f xs) \<in> set xs"
proof -
  assume "xs \<noteq> []"
  then have "sort_key f xs \<noteq> []" using length_sort [of f xs] by (metis length_0_conv)
  then have "hd (sort_key f xs) \<in> set (sort_key f xs)" by (rule hd_in_set)
  then show ?thesis by simp
qed

lemma makeMove_unfold:
  "makeMove r d p =
     (if fst (candidates r d p) = []
      then Inr (fst (drawCards (refresh p)), snd (drawCards (refresh p)), d, snd (candidates r d p))
      else
        (case (if mtarget (hd (sort_key (\<lambda>m. - priority m) (fst (candidates r d p)))) = Dutch
               then playCard (mcard (hd (sort_key (\<lambda>m. - priority m) (fst (candidates r d p)))))
                      (Name (msource (hd (sort_key (\<lambda>m. - priority m) (fst (candidates r d p)))))) d None (refresh p)
               else (case mpostPile (hd (sort_key (\<lambda>m. - priority m) (fst (candidates r d p)))) of
                       None \<Rightarrow> Inl TypeError
                     | Some k \<Rightarrow>
                         playCard (mcard (hd (sort_key (\<lambda>m. - priority m) (fst (candidates r d p)))))
                           (Name (msource (hd (sort_key (\<lambda>m. - priority m) (fst (candidates r d p)))))) d (Some k) (refresh p)))
         of Inl e \<Rightarrow> Inl e
          | Inr (b, p2, d2) \<Rightarrow> Inr (b, p2, d2, snd (candidates r d p))))"
  by (simp only: makeMove_def Let_def case_prod_beta candidates_def refresh_def)

lemma makeMove_draws:
  assumes "fst (candidates r d p) = []"
  shows "makeMove r d p =
     Inr (fst (drawCards (refresh p)), snd (drawCards (refresh p)), d, snd (candidates r d p))"
  using assms by (simp add: makeMove_unfold)

lemma makeMove_best:
  assumes "fst (candidates r d p) \<noteq> []"
    and "playCard (mcard (hd (sort_key (\<lambda>m. - priority m) (fst (candidates r d p)))))
           (Name (msource (hd (sort_key (\<lambda>m. - priority m) (fst (candidates r d p)))))) d tgt (refresh p)
         = Inr (b, p', d')"
    and "tgt = (if mtarget (hd (sort_key (\<lambda>m. - priority m) (fst (candidates r d p)))) = Dutch then None
                else mpostPile (hd (sort_key (\<lambda>m. - priority m) (fst (candidates r d p)))))"
    and "mtarget (hd (sort_key (\<lambda>m. - priority m) (fst (candidates r d p)))) = Dutch \<or> tgt \<noteq> None"
  shows "makeMove r d p = Inr (b, p', d', snd (candidates r d p))"
proof (cases "mtarget (hd (sort_key (\<lambda>m. - priority m) (fst (candidates r d p)))) = Dutch")
  case True
  with assms(1,2,3) show ?thesis by (simp add: makeMove_unfold)
next
  case False
  with assms(3,4) obtain k where "tgt = Some k"
    "mpostPile (hd (sort_key (\<lambda>m. - priority m) (fst (candidates r d p)))) = Some k" by auto
  with False assms(1,2) show ?thesis by (simp add: makeMove_unfold)
qed

lemma makeMove_plays:
  assumes "fst (candidates r d p) \<noteq> []"
  shows "\<exists>c n tgt p' d'. c \<in> fst ` set (getAvailableCards (refresh p)) \<and>
      playCard c (Name n) d tgt (refresh p) = Inr (True, p', d') \<and>
      makeMove r d p = Inr (True, p', d', snd (candidates r d p))"
proof -
  let ?moves = "fst (candidates r d p)"
  let ?best = "hd (sort_key (\<lambda>m. - priority m) ?moves)"
  from hd_sort_key_in [OF assms] candidates_legal have legal: "legalMove (refresh p) d ?best"
    by blast
  then have avail: "mcard ?best \<in> fst ` set (getAvailableCards (refresh p))"
    by (simp add: legalMove_def)
  show ?thesis
  proof (cases "mtarget ?best")
    case Dutch
    with legal have "canPlayOn (mcard ?best) (topCard (d (color (mcard ?best))))"
      by (simp add: legalMove_def)
    from playCard_name_ok(1) [where d = d, OF this] obtain p' d'
      where pc: "playCard (mcard ?best) (Name (msource ?best)) d None (refresh p) = Inr (True, p', d')"
      by blast
    from makeMove_best [OF assms pc] Dutch
    have "makeMove r d p = Inr (True, p', d', snd (candidates r d p))" by simp
    with pc avail show ?thesis by blast
  next
    case PostTarget
    with legal obtain k where k: "mpostPile ?best = Some k" "k < length (postPiles (refresh p))"
      "canPostOn (mcard ?best) (topCard (postPiles (refresh p) ! k))"
      by (auto simp: legalMove_def split: option.splits)
    from playCard_name_ok(2) [where d = d, OF k(2,3)] obtain p' d'
      where pc: "playCard (mcard ?best) (Name (msource ?best)) d (Some k) (refresh p) = Inr (True, p', d')"
      by blast
    from makeMove_best [OF assms pc] PostTarget k(1)
    have "makeMove r d p = Inr (True, p', d', snd (candidates r d p))" by simp
    with pc avail show ?thesis by blast
  qed
qed

lemma makeMove_total: "\<exists>b p' d' r'. makeMove r d p = Inr (b, p', d', r')"
proof (cases "fst (candidates r d p) = []")
  case True
  from makeMove_draws [OF this] show ?thesis by blast
next
  case False
  from makeMove_plays [OF this] show ?thesis by blast
qed

section \<open>The cards of a hand\<close>

text \<open>
  \<^verbatim>\<open>Math.random()\<close> stays below 1, so the index \<^verbatim>\<open>j\<close> of the shuffle stays within
  \<^verbatim>\<open>0..i\<close> and every swap permutes the deck.
\<close>

lemma random_range: "0 \<le> random r" "random r < 1"
  using Rep_unit_interval [of "r 0"] by (simp_all add: random_def)

lemma random_index: "nat \<lfloor>random r * (real n + 1)\<rfloor> \<le> n"
proof -
  have "random r * (real n + 1) < 1 * (real n + 1)"
    using random_range(2) [of r] by (intro mult_strict_right_mono) simp_all
  then have "random r * (real n + 1) < real_of_int (int n + 1)" by simp
  then have "\<lfloor>random r * (real n + 1)\<rfloor> < int n + 1" by (simp only: floor_less_iff)
  then show ?thesis by simp
qed

lemma shuffle_mset: "i < length deck \<Longrightarrow> mset (fst (shuffle i r deck)) = mset deck"
proof (induction i arbitrary: r deck)
  case 0
  then show ?case by simp
next
  case (Suc i)
  let ?j = "nat \<lfloor>random r * (real (Suc i) + 1)\<rfloor>"
  let ?deck = "deck[Suc i := deck ! ?j, ?j := deck ! Suc i]"
  have j: "?j < length deck" using random_index [of r "Suc i"] Suc.prems by simp
  have "mset ?deck = mset deck" by (rule mset_swap [OF j Suc.prems])
  moreover have "i < length ?deck" using Suc.prems by simp
  from Suc.IH [OF this, of "nextRnd r"] have "mset (fst (shuffle i (nextRnd r) ?deck)) = mset ?deck" .
  ultimately show ?case by (simp add: Let_def)
qed

lemma newDeck_length: "length newDeck = 40"
  by (simp add: newDeck_def colors_def)

lemma initializeCards_handCards: "handCards (fst (initializeCards r p)) = mset newDeck"
proof -
  let ?deck = "fst (shuffle (length newDeck - 1) r newDeck)"
  have "mset ?deck = mset newDeck" by (rule shuffle_mset) (simp add: newDeck_length)
  moreover have "mset (take 10 ?deck) + mset (drop 10 ?deck) = mset ?deck"
    by (simp flip: mset_append)
  ultimately show ?thesis
    by (simp add: initializeCards_def case_prod_beta drawCards_handCards)
       (simp add: handCards_def)
qed

lemma newDeck_set: "set newDeck = {c. 1 \<le> cvalue c \<and> cvalue c \<le> 10}"
proof (intro set_eqI iffI)
  fix c
  assume "c \<in> set newDeck"
  then show "c \<in> {c. 1 \<le> cvalue c \<and> cvalue c \<le> 10}" by (auto simp: newDeck_def)
next
  fix c
  assume "c \<in> {c. 1 \<le> cvalue c \<and> cvalue c \<le> 10}"
  then have v: "cvalue c \<in> {1..10}" by simp
  have col: "color c \<in> set colors" by (cases "color c") (simp_all add: colors_def)
  from v have "Card (cvalue c) (color c) \<in> (\<lambda>v. Card v (color c)) ` {1..10}" by (rule imageI)
  with col have "Card (cvalue c) (color c) \<in> set newDeck"
    by (auto simp: newDeck_def)
  then show "c \<in> set newDeck" by simp
qed

lemma newDeck_distinct: "distinct newDeck"
  unfolding newDeck_def
  by (rule distinct_concat) (auto simp: colors_def distinct_map inj_on_def)

lemma newDeck_count: "count (mset newDeck) c = (if 1 \<le> cvalue c \<and> cvalue c \<le> 10 then 1 else 0)"
proof -
  have "count (mset newDeck) c = (if c \<in> set newDeck then 1 else 0)"
    using newDeck_distinct by (simp add: distinct_count_atmost_1)
  then show ?thesis by (simp add: newDeck_set)
qed

lemma available_in_hand:
  assumes "(c, src) \<in> set (getAvailableCards p)"
  shows "c \<in># handCards p"
proof -
  from assms consider "blitzPile p \<noteq> []" "c = last (blitzPile p)"
    | i where "i < length (postPiles p)" "postPiles p ! i \<noteq> []" "c = last (postPiles p ! i)"
    | i where "i < length (drawRevealed p)" "c = drawRevealed p ! i"
    by (auto simp: available_iff)
  then show ?thesis
  proof cases
    case 1
    then show ?thesis by (simp add: handCards_def)
  next
    case 2
    then have "c \<in> set (postPiles p ! i)" "postPiles p ! i \<in> set (postPiles p)" by simp_all
    then have "c \<in> set (concat (postPiles p))" by auto
    then show ?thesis by (simp add: handCards_def)
  next
    case 3
    then show ?thesis by (simp add: handCards_def)
  qed
qed

lemma refresh_handCards: "handCards (refresh p) = handCards p"
  by (simp add: refresh_def drawCards_handCards)

text \<open>
  An invocation of the bot that has no candidate move only draws, and the cards stay the
  same.  An invocation that has a candidate puts a card of the hand on its target and
  leaves it at its source as well: the hand and the Dutch piles together hold one card
  more than before, a second copy of a card of the hand.
\<close>

lemma makeMove_draw_cards:
  assumes "fst (candidates r d p) = []" and "makeMove r d p = Inr (b, p', d', r')"
  shows "d' = d" and "handCards p' = handCards p"
  using makeMove_draws [OF assms(1)] assms(2) refresh_handCards [of p]
  by (simp_all add: drawCards_handCards)

lemma makeMove_adds_card:
  assumes "fst (candidates r d p) \<noteq> []"
  shows "\<exists>c p' d'. c \<in># handCards p \<and>
           makeMove r d p = Inr (True, p', d', snd (candidates r d p)) \<and>
           handCards p' + dutchCards d' = add_mset c (handCards p + dutchCards d)"
proof -
  from makeMove_plays [OF assms] obtain c n tgt p' d'
    where av: "c \<in> fst ` set (getAvailableCards (refresh p))"
      and pc: "playCard c (Name n) d tgt (refresh p) = Inr (True, p', d')"
      and mm: "makeMove r d p = Inr (True, p', d', snd (candidates r d p))"
    by blast
  from av obtain src where "(c, src) \<in> set (getAvailableCards (refresh p))" by auto
  from available_in_hand [OF this] have c: "c \<in># handCards p" by (simp add: refresh_handCards)
  have "handCards p' + dutchCards d' = add_mset c (handCards p + dutchCards d)"
  proof (cases tgt)
    case None
    from playCard_name_dutch(1,4) [OF pc [unfolded None]] show ?thesis
      by (simp add: dutchCards_push refresh_handCards)
  next
    case (Some k)
    from playCard_name_post(1,5) [OF pc [unfolded Some]] show ?thesis
      by (simp add: refresh_handCards)
  qed
  with c mm show ?thesis by blast
qed

text \<open>A hand with an empty post pile and an available card has a candidate move.\<close>

lemma postMoves_nonempty:
  "i \<in> set js \<Longrightarrow> postPiles p ! i = [] \<Longrightarrow> fst (postMoves p c n js (ms, r)) \<noteq> []"
proof (induction js arbitrary: ms r)
  case Nil
  then show ?case by simp
next
  case (Cons j js)
  show ?case
  proof (cases "canPostOn c (topCard (postPiles p ! j)) \<and>
      (case topCard (postPiles p ! j) of None \<Rightarrow> True
       | Some t \<Rightarrow> cvalue c < 8 \<or> cvalue t - cvalue c \<ge> 2)")
    case True
    let ?m = "\<lparr>mcard = c, msource = n, mtarget = PostTarget, mpostPile = Some j,
               priority = fst (getMovePriority (strategy p) r c (Name n) PostTarget)\<rparr>"
    let ?r = "snd (getMovePriority (strategy p) r c (Name n) PostTarget)"
    have "set (ms @ [?m]) \<subseteq> set (fst (postMoves p c n js (ms @ [?m], ?r)))"
      by (rule postMoves_mono)
    then have "fst (postMoves p c n js (ms @ [?m], ?r)) \<noteq> []" by auto
    with True show ?thesis by (simp add: case_prod_beta)
  next
    case False
    with Cons.prems have "i \<noteq> j" by (auto simp: topCard_def)
    with Cons.prems have "i \<in> set js" by simp
    from Cons.IH [OF this Cons.prems(2)] False show ?thesis by auto
  qed
qed

lemma collectMoves_nonempty:
  assumes "avail \<noteq> []" and "i < length (postPiles p)" and "postPiles p ! i = []"
  shows "fst (collectMoves p d avail (ms, r)) \<noteq> []"
proof -
  from assms(1) obtain c src rest where avail: "avail = (c, src) # rest"
    by (cases avail) auto
  let ?acc = "(if canPlayOn c (topCard (d (color c)))
           then (let (pr, r') = getMovePriority (strategy p) r c (Name (sourceName src)) Dutch
                 in (ms @ [\<lparr>mcard = c, msource = sourceName src, mtarget = Dutch,
                                mpostPile = None, priority = pr\<rparr>], r'))
           else (ms, r))"
  obtain ms' r' where mr: "postMoves p c (sourceName src) [0..<length (postPiles p)] ?acc = (ms', r')"
    by fastforce
  then have "postMoves p c (sourceName src) [0..<length (postPiles p)] (fst ?acc, snd ?acc) = (ms', r')"
    by simp
  with postMoves_nonempty [of i "[0..<length (postPiles p)]" p c "sourceName src" "fst ?acc" "snd ?acc"]
    assms(2,3)
  have "ms' \<noteq> []" by simp
  moreover have "set ms' \<subseteq> set (fst (collectMoves p d rest (ms', r')))"
    by (rule collectMoves_mono)
  ultimately have "fst (collectMoves p d rest (ms', r')) \<noteq> []" by auto
  with mr avail show ?thesis by simp
qed

lemma drawCards_fields:
  "name (snd (drawCards p)) = name p" "blitzPile (snd (drawCards p)) = blitzPile p"
  "postPiles (snd (drawCards p)) = postPiles p" "totalPlays (snd (drawCards p)) = totalPlays p"
  "wins (snd (drawCards p)) = wins p" "strategy (snd (drawCards p)) = strategy p"
  "playsThisRound (snd (drawCards p)) = playsThisRound p"
  by (simp_all add: drawCards_def case_prod_beta)

lemma shuffle_length: "length (fst (shuffle i r deck)) = length deck"
  by (induction i arbitrary: r deck) (simp_all add: Let_def)

lemma initializeCards_fields:
  "length (blitzPile (fst (initializeCards r p))) = 10"
  "postPiles (fst (initializeCards r p)) = [[], [], []]"
  "name (fst (initializeCards r p)) = name p"
  by (simp_all add: initializeCards_def case_prod_beta drawCards_fields shuffle_length newDeck_length)

lemma refresh_fields:
  "name (refresh p) = name p" "blitzPile (refresh p) = blitzPile p"
  "postPiles (refresh p) = postPiles p" "totalPlays (refresh p) = totalPlays p"
  "wins (refresh p) = wins p" "strategy (refresh p) = strategy p"
  "playsThisRound (refresh p) = playsThisRound p"
  by (simp_all add: refresh_def drawCards_fields)

lemma dealt_has_candidate: "fst (candidates r d (fst (initializeCards r0 p0))) \<noteq> []"
proof -
  let ?p = "fst (initializeCards r0 p0)"
  have "blitzPile (refresh ?p) \<noteq> []"
    using initializeCards_fields(1) [of r0 p0] by (auto simp: refresh_fields)
  then have "getAvailableCards (refresh ?p) \<noteq> []" by (simp add: getAvailableCards_def)
  moreover have "0 < length (postPiles (refresh ?p))" "postPiles (refresh ?p) ! 0 = []"
    by (simp_all add: refresh_fields initializeCards_fields)
  ultimately show ?thesis
    unfolding candidates_def by (rule collectMoves_nonempty)
qed

text \<open>The deal under \<^verbatim>\<open>Math.random()\<close> returning 0 throughout.\<close>

lemma nextRnd_steady: "nextRnd steadyRnd = steadyRnd"
  by (simp add: nextRnd_def steadyRnd_def)

lemma shuffle_steady: "length ys = i \<Longrightarrow> fst (shuffle i steadyRnd (x # ys @ zs)) = ys @ x # zs"
proof (induction i arbitrary: x ys zs)
  case 0
  then show ?case by simp
next
  case (Suc i)
  then obtain ys' y where ys: "ys = ys' @ [y]" and len: "length ys' = i"
    by (cases ys rule: rev_cases) auto
  have r: "random steadyRnd = 0"
    by (simp add: random_def steadyRnd_def unitZero.rep_eq)
  have "(x # ys @ zs)[Suc i := (x # ys @ zs) ! 0, 0 := (x # ys @ zs) ! Suc i] = y # ys' @ (x # zs)"
    using ys len by (simp add: nth_append list_update_append)
  with Suc.IH [OF len, of y "x # zs"] ys r show ?case
    by (simp add: nextRnd_steady)
qed

lemma upto_1_10: "[1..10] = [1, 2, 3, 4, 5, 6, 7, 8, 9, 10 :: int]"
  using upto_rec1 [of 1 10] by simp

lemma newDeck_eval:
  "newDeck = Card 1 Red # (map (\<lambda>v. Card v Red) [2..10] @ map (\<lambda>v. Card v Blue) [1..10] @
      map (\<lambda>v. Card v Green) [1..10] @ map (\<lambda>v. Card v Yellow) [1..10]) @ []"
  by (simp add: newDeck_def colors_def upto_1_10)

lemma deal_steady: "fst (initializeCards steadyRnd bareHand) = dealtHand"
proof -
  have "fst (shuffle 39 steadyRnd newDeck) =
     (map (\<lambda>v. Card v Red) [2..10] @ map (\<lambda>v. Card v Blue) [1..10] @
      map (\<lambda>v. Card v Green) [1..10] @ map (\<lambda>v. Card v Yellow) [1..10]) @ Card 1 Red # []"
    unfolding newDeck_eval by (rule shuffle_steady) simp
  then show ?thesis
    by (simp add: initializeCards_def case_prod_beta newDeck_length dealtHand_def bareHand_def
          drawCards_def upto_1_10 numeral_3_eq_3)
qed

lemma bot_on_deal:
  "makeMove steadyRnd (\<lambda>c. []) dealtHand =
     Inr (True, dealtHand\<lparr>playsThisRound := 1, totalPlays := 1\<rparr>,
          (\<lambda>c. [])(Blue := [Card 1 Blue]), steadyRnd)"
  by (simp add: makeMove_def dealtHand_def bareHand_def
          getAvailableCards_def drawCards_def topCard_def getMovePriority_def playCard_def
          removeCardFromSource_def Let_def upt_rec_numeral)

text \<open>
  C1.  The hand dealt under \<^verbatim>\<open>Math.random()\<close> returning 0 throughout holds the 40 cards of
  the deck, with the blue 1 on top of the blitz pile.  The first invocation of the bot, on
  empty Dutch piles, puts the blue 1 on the blue Dutch pile and returns true, and the blue 1
  is still on top of the blitz pile: the piles of the hand together with the Dutch piles
  hold 41 cards, the 40 cards of the deal and a second blue 1.  The claim says that they
  are exactly the 40 cards of the deal.
\<close>

theorem bot_placement_duplicates_card:
  "fst (initializeCards steadyRnd bareHand) = dealtHand \<and>
   handCards dealtHand = mset newDeck \<and>
   last (blitzPile dealtHand) = Card 1 Blue \<and>
   makeMove steadyRnd (\<lambda>c. []) dealtHand =
     Inr (True, dealtHand\<lparr>playsThisRound := 1, totalPlays := 1\<rparr>,
          (\<lambda>c. [])(Blue := [Card 1 Blue]), steadyRnd) \<and>
   blitzPile (dealtHand\<lparr>playsThisRound := 1, totalPlays := 1\<rparr>) = blitzPile dealtHand \<and>
   handCards (dealtHand\<lparr>playsThisRound := 1, totalPlays := 1\<rparr>) +
     dutchCards ((\<lambda>c. [])(Blue := [Card 1 Blue])) = add_mset (Card 1 Blue) (mset newDeck) \<and>
   count (handCards (dealtHand\<lparr>playsThisRound := 1, totalPlays := 1\<rparr>) +
     dutchCards ((\<lambda>c. [])(Blue := [Card 1 Blue]))) (Card 1 Blue) = 2 \<and>
   size (handCards (dealtHand\<lparr>playsThisRound := 1, totalPlays := 1\<rparr>) +
     dutchCards ((\<lambda>c. [])(Blue := [Card 1 Blue]))) = 41"
proof -
  have deal: "handCards dealtHand = mset newDeck"
    using initializeCards_handCards [of steadyRnd bareHand] by (simp add: deal_steady)
  have top: "last (blitzPile dealtHand) = Card 1 Blue" by (simp add: dealtHand_def)
  have hand: "handCards (dealtHand\<lparr>playsThisRound := 1, totalPlays := 1\<rparr>) = handCards dealtHand"
    by (simp add: handCards_def)
  have dutch: "dutchCards ((\<lambda>c. [])(Blue := [Card 1 Blue])) = {#Card 1 Blue#}"
    by (simp add: dutchCards_def colors_def)
  from hand dutch deal
  have sum: "handCards (dealtHand\<lparr>playsThisRound := 1, totalPlays := 1\<rparr>) +
     dutchCards ((\<lambda>c. [])(Blue := [Card 1 Blue])) = add_mset (Card 1 Blue) (mset newDeck)"
    by simp
  have two: "count (add_mset (Card 1 Blue) (mset newDeck)) (Card 1 Blue) = 2"
    by (simp add: newDeck_count)
  have size: "size (add_mset (Card 1 Blue) (mset newDeck)) = 41" by (simp add: newDeck_length)
  from deal_steady deal top bot_on_deal sum two size show ?thesis by simp
qed
section \<open>The loops of a turn\<close>

text \<open>
  Invariant rules for the three loops of \<^verbatim>\<open>playTurn\<close>, what each step changes, and that
  no step throws once every player has its statistics entry.
\<close>

lemma winCheck_cases:
  "winCheck now i t = None \<longleftrightarrow> \<not> hasWon (players (game t) ! i)"
  "winCheck now i t = Some res \<longleftrightarrow>
     hasWon (players (game t) ! i) \<and>
     res = (case endRound (Some i) (now 0) (game t) of Inl e \<Rightarrow> Inl e | Inr g' \<Rightarrow> Inr (Return (t\<lparr>game := g'\<rparr>)))"
  by (auto simp: winCheck_def)

lemma keepsD:
  assumes "keeps now i P R" and "P t"
  shows "botMove i t = Inr (False, t') \<Longrightarrow> P t'"
    and "botMove i t = Inr (True, t') \<Longrightarrow> P (countMove t')"
    and "drawStep i t = (True, t') \<Longrightarrow> P t'"
    and "drawStep i t = (False, t') \<Longrightarrow> P (t'\<lparr>staleMateCounter := staleMateCounter t' + 1\<rparr>)"
    and "hasWon (players (game t) ! i) \<Longrightarrow> endRound (Some i) (now 0) (game t) = Inr g' \<Longrightarrow>
         R (t\<lparr>game := g'\<rparr>)"
  using assms unfolding keeps_def by blast+

lemma drawRetry_rule:
  assumes "keeps now i P R" and "P t" and "drawRetry now i n t = Inr c"
  shows "case c of Proceed t' \<Rightarrow> P t' | Return t' \<Rightarrow> R t'"
  using assms(2,3)
proof (induction n arbitrary: t)
  case 0
  then show ?case by auto
next
  case (Suc n)
  note k = keepsD [OF assms(1)]
  obtain b t1 where ds: "drawStep i t = (b, t1)" by (cases "drawStep i t")
  show ?case
  proof (cases b)
    case False
    with ds Suc.prems(2) have "c = Proceed (t1\<lparr>staleMateCounter := staleMateCounter t1 + 1\<rparr>)"
      by simp
    moreover from k(4) [OF Suc.prems(1)] ds False
    have "P (t1\<lparr>staleMateCounter := staleMateCounter t1 + 1\<rparr>)" by simp
    ultimately show ?thesis by simp
  next
    case True
    with ds k(3) [OF Suc.prems(1)] have p1: "P t1" by simp
    from Suc.prems(2) ds True obtain b2 t2 where bm: "botMove i t1 = Inr (b2, t2)"
      by (cases "botMove i t1") auto
    show ?thesis
    proof (cases b2)
      case False
      with bm k(1) [OF p1] have "P t2" by simp
      moreover from Suc.prems(2) ds True bm False have "drawRetry now i n t2 = Inr c" by simp
      ultimately show ?thesis by (rule Suc.IH)
    next
      case moved: True
      with bm k(2) [OF p1] have p3: "P (countMove t2)" by simp
      show ?thesis
      proof (cases "hasWon (players (game (countMove t2)) ! i)")
        case False
        then have "winCheck now i (countMove t2) = None" by (simp add: winCheck_def)
        with Suc.prems(2) ds True bm moved have "c = Proceed (countMove t2)" by simp
        with p3 show ?thesis by simp
      next
        case won: True
        then have "winCheck now i (countMove t2) =
          Some (case endRound (Some i) (now 0) (game (countMove t2)) of
                  Inl e \<Rightarrow> Inl e | Inr g' \<Rightarrow> Inr (Return (countMove t2\<lparr>game := g'\<rparr>)))"
          by (simp add: winCheck_def)
        with Suc.prems(2) ds True bm moved obtain g'
          where e: "endRound (Some i) (now 0) (game (countMove t2)) = Inr g'"
            and c: "c = Return (countMove t2\<lparr>game := g'\<rparr>)"
          by (cases "endRound (Some i) (now 0) (game (countMove t2))") auto
        from k(5) [OF p3 won e] c show ?thesis by simp
      qed
    qed
  qed
qed

lemma playerLoop_rule:
  "keeps now i P R \<Longrightarrow> P t \<Longrightarrow> playerLoop now i m a t = Inr c \<Longrightarrow>
   (case c of Proceed t' \<Rightarrow> P t' | Return t' \<Rightarrow> R t')"
proof (induction now i m a t rule: playerLoop.induct)
  case (1 now i movesMade attempts t)
  note k = keepsD [OF "1.prems"(1)]
  show ?case
  proof (cases "movesMade < 3 \<and> attempts < 5 \<and> gameActive (game t)")
    case False
    with "1.prems"(3) have "c = Proceed t" by auto
    with "1.prems"(2) show ?thesis by simp
  next
    case guard: True
    with "1.prems"(3) obtain b t1 where bm: "botMove i t = Inr (b, t1)"
      by (cases "botMove i t") auto
    show ?thesis
    proof (cases b)
      case False
      with bm k(1) [OF "1.prems"(2)] have "P t1" by simp
      moreover from "1.prems"(3) guard bm False have "drawRetry now i 2 t1 = Inr c" by simp
      ultimately show ?thesis by (rule drawRetry_rule [OF "1.prems"(1)])
    next
      case moved: True
      with bm k(2) [OF "1.prems"(2)] have p2: "P (countMove t1)" by simp
      show ?thesis
      proof (cases "hasWon (players (game (countMove t1)) ! i)")
        case False
        then have wc: "winCheck now i (countMove t1) = None" by (simp add: winCheck_def)
        with "1.prems"(3) guard bm moved
        have "playerLoop now i (movesMade + 1) (attempts + 1) (countMove t1) = Inr c" by simp
        moreover from moved have "b = True" by simp
        ultimately show ?thesis using "1.IH" [OF guard bm refl _ wc "1.prems"(1) p2] by blast
      next
        case won: True
        then have "winCheck now i (countMove t1) =
          Some (case endRound (Some i) (now 0) (game (countMove t1)) of
                  Inl e \<Rightarrow> Inl e | Inr g' \<Rightarrow> Inr (Return (countMove t1\<lparr>game := g'\<rparr>)))"
          by (simp add: winCheck_def)
        with "1.prems"(3) guard bm moved obtain g'
          where e: "endRound (Some i) (now 0) (game (countMove t1)) = Inr g'"
            and c: "c = Return (countMove t1\<lparr>game := g'\<rparr>)"
          by (cases "endRound (Some i) (now 0) (game (countMove t1))") auto
        from k(5) [OF p2 won e] c show ?thesis by simp
      qed
    qed
  qed
qed

lemma playersLoop_rule:
  assumes "\<forall>i\<in>set is. keeps now i P R" and "P t" and "playersLoop now is t = Inr c"
  shows "case c of Proceed t' \<Rightarrow> P t' | Return t' \<Rightarrow> R t'"
  using assms
proof (induction "is" arbitrary: t)
  case Nil
  then show ?case by auto
next
  case (Cons i "is")
  from Cons.prems(1) have k: "keeps now i P R" and ks: "\<forall>i\<in>set is. keeps now i P R" by simp_all
  show ?case
  proof (cases "gameActive (game t) \<and> \<not> hasWon (players (game t) ! i)")
    case False
    with Cons.prems(3) have "playersLoop now is t = Inr c" by auto
    from Cons.IH [OF ks Cons.prems(2) this] show ?thesis .
  next
    case True
    with Cons.prems(3) obtain c1 where pl: "playerLoop now i 0 0 t = Inr c1"
      by (auto split: sum.splits)
    from playerLoop_rule [OF k Cons.prems(2) pl]
    have c1: "case c1 of Proceed t' \<Rightarrow> P t' | Return t' \<Rightarrow> R t'" .
    show ?thesis
    proof (cases c1)
      case (Proceed t1)
      with Cons.prems(3) True pl have "playersLoop now is t1 = Inr c" by simp
      moreover from c1 Proceed have "P t1" by simp
      ultimately show ?thesis using Cons.IH [OF ks] by blast
    next
      case (Return t1)
      with Cons.prems(3) True pl have "c = Return t1" by simp
      with c1 Return show ?thesis by simp
    qed
  qed
qed


lemma map_update_same:
  assumes "f y = f (xs ! i)"
  shows "map f (xs[i := y]) = map f xs"
proof (cases "i < length xs")
  case True
  with assms show ?thesis by (simp add: map_update list_update_same_conv)
next
  case False
  then have "xs[i := y] = xs" by (intro list_update_beyond) simp
  then show ?thesis by simp
qed

lemma statsReady_names:
  "statsReady g \<longleftrightarrow> (\<forall>n\<in>set (map name (players g)). playerStats (gameStats g) n \<noteq> None)"
  by (simp add: statsReady_def list_all_iff)

lemma statsReady_cong:
  "map name (players g') = map name (players g) \<Longrightarrow> playerStats (gameStats g') = playerStats (gameStats g)
   \<Longrightarrow> statsReady g' = statsReady g"
  by (simp only: statsReady_names)

lemma makeMove_fields:
  assumes "makeMove r d p = Inr (b, p', d', r')"
  shows "name p' = name p" and "blitzPile p' = blitzPile p" and "wins p' = wins p"
    and "strategy p' = strategy p" and "length (postPiles p') = length (postPiles p)"
proof -
  have "name p' = name p \<and> blitzPile p' = blitzPile p \<and> wins p' = wins p \<and>
        strategy p' = strategy p \<and> length (postPiles p') = length (postPiles p)"
  proof (cases "fst (candidates r d p) = []")
    case True
    from makeMove_draws [OF this] assms show ?thesis
      by (auto simp: drawCards_fields refresh_fields)
  next
    case False
    from makeMove_plays [OF this] assms obtain c n tgt
      where "playCard c (Name n) d tgt (refresh p) = Inr (True, p', d')" by auto
    from playCard_name_fields [OF this] show ?thesis by (simp add: refresh_fields)
  qed
  then show "name p' = name p" and "blitzPile p' = blitzPile p" and "wins p' = wins p"
    and "strategy p' = strategy p" and "length (postPiles p') = length (postPiles p)"
    by simp_all
qed

lemmas makeMove_name = makeMove_fields(1)

lemma makeMove_False:
  assumes "makeMove r d p = Inr (False, p', d', r')"
  shows "d' = d" and "totalPlays p' = totalPlays p" and "blitzPile p' = blitzPile p"
    and "fst (candidates r d p) = []" and "p' = refresh p" and "\<not> fst (drawCards (refresh p))"
proof -
  show none: "fst (candidates r d p) = []"
  proof (rule ccontr)
    assume "fst (candidates r d p) \<noteq> []"
    from makeMove_plays [OF this] assms show False by auto
  qed
  from makeMove_draws [OF none] assms
  have eq: "d' = d" "p' = snd (drawCards (refresh p))" "\<not> fst (drawCards (refresh p))" by auto
  from eq(3) have "snd (drawCards (refresh p)) = refresh p"
    by (auto simp: drawCards_def case_prod_beta split: if_splits)
  with eq show "d' = d" and "p' = refresh p" and "\<not> fst (drawCards (refresh p))"
    and "totalPlays p' = totalPlays p" and "blitzPile p' = blitzPile p"
    by (simp_all add: refresh_fields)
qed

lemma botMove_result:
  assumes "botMove i t = Inr (b, t')"
  shows "\<exists>p' d' r'. makeMove (rand t) (dutchPiles (game t)) (players (game t) ! i) = Inr (b, p', d', r') \<and>
           t' = t\<lparr>game := (game t)\<lparr>players := (players (game t))[i := p'], dutchPiles := d'\<rparr>, rand := r'\<rparr>"
  using assms by (auto simp: botMove_def split: sum.splits)

lemma botMove_total: "\<exists>b t'. botMove i t = Inr (b, t')"
proof -
  from makeMove_total obtain b p' d' r'
    where "makeMove (rand t) (dutchPiles (game t)) (players (game t) ! i) = Inr (b, p', d', r')"
    by blast
  then show ?thesis by (simp add: botMove_def)
qed

lemma drawStep_result:
  "drawStep i t = (b, t') \<Longrightarrow>
     b = fst (drawCards (players (game t) ! i)) \<and>
     t' = t\<lparr>game := (game t)\<lparr>players := (players (game t))[i := snd (drawCards (players (game t) ! i))]\<rparr>\<rparr>"
  by (auto simp: drawStep_def case_prod_beta)

lemma updateStats_result:
  assumes "updateStats g = Inr g'"
  shows "players g' = players g" and "dutchPiles g' = dutchPiles g" and "gameActive g' = gameActive g"
    and "winner g' = winner g" and "moveCount g' = moveCount g" and "roundDuration g' = roundDuration g"
    and "roundStartTime g' = roundStartTime g" and "roundNumber g' = roundNumber g"
  using assms by (auto simp: updateStats_def Let_def split: sum.splits)

lemma endRound_result:
  assumes "endRound w now g = Inr g'"
  shows "\<not> gameActive g'" and "winner g' = w" and "dutchPiles g' = dutchPiles g"
    and "moveCount g' = moveCount g" and "roundDuration g' = elapsedSeconds now g"
    and "players g' = (case w of None \<Rightarrow> players g
           | Some i \<Rightarrow> (players g)[i := (players g ! i)\<lparr>wins := wins (players g ! i) + 1\<rparr>])"
  using assms updateStats_result [of _ g']
  by (auto simp: endRound_def Let_def split: option.splits)

lemma endRound_ok:
  assumes "statsReady g"
  shows "\<exists>g'. endRound w now g = Inr g' \<and> statsReady g'"
proof -
  let ?g1 = "g\<lparr>gameActive := False, winner := w, roundDuration := elapsedSeconds now g\<rparr>"
  let ?g2 = "case w of None \<Rightarrow> ?g1
             | Some i \<Rightarrow> ?g1\<lparr>players := (players ?g1)[i := (players ?g1 ! i)\<lparr>wins := wins (players ?g1 ! i) + 1\<rparr>]\<rparr>"
  have "map name (players ?g2) = map name (players g)"
    by (cases w) (simp_all add: map_update_same)
  moreover have "playerStats (gameStats ?g2) = playerStats (gameStats g)" by (cases w) simp_all
  ultimately have "statsReady ?g2" using assms statsReady_cong by blast
  from updateStats_ok [OF this] show ?thesis by (auto simp: endRound_def Let_def)
qed

lemma botMove_statsReady:
  assumes "botMove i t = Inr (b, t')"
  shows "statsReady (game t') = statsReady (game t)"
proof -
  from botMove_result [OF assms] obtain p' d' r'
    where mm: "makeMove (rand t) (dutchPiles (game t)) (players (game t) ! i) = Inr (b, p', d', r')"
      and t': "t' = t\<lparr>game := (game t)\<lparr>players := (players (game t))[i := p'], dutchPiles := d'\<rparr>, rand := r'\<rparr>"
    by blast
  from makeMove_name [OF mm] t' show ?thesis
    by (intro statsReady_cong) (simp_all add: map_update_same)
qed

lemma drawStep_statsReady:
  assumes "drawStep i t = (b, t')"
  shows "statsReady (game t') = statsReady (game t)"
  using drawStep_result [OF assms]
  by (intro statsReady_cong) (simp_all add: map_update_same drawCards_fields)

lemma countMove_statsReady: "statsReady (game (countMove t)) = statsReady (game t)"
  by (simp add: countMove_def statsReady_def)

lemma winCheck_total:
  assumes "statsReady (game t)"
  shows "winCheck now i t = None \<or> (\<exists>t'. winCheck now i t = Some (Inr (Return t')))"
proof (cases "hasWon (players (game t) ! i)")
  case False
  then show ?thesis by (simp add: winCheck_def)
next
  case True
  from endRound_ok [OF assms] obtain g' where "endRound (Some i) (now 0) (game t) = Inr g'" by blast
  with True show ?thesis by (simp add: winCheck_def)
qed

lemma drawRetry_total: "statsReady (game t) \<Longrightarrow> \<exists>c. drawRetry now i n t = Inr c"
proof (induction n arbitrary: t)
  case 0
  then show ?case by simp
next
  case (Suc n)
  obtain b t1 where ds: "drawStep i t = (b, t1)" by (cases "drawStep i t")
  from drawStep_statsReady [OF ds] Suc.prems have r1: "statsReady (game t1)" by simp
  obtain b2 t2 where bm: "botMove i t1 = Inr (b2, t2)" using botMove_total by blast
  from botMove_statsReady [OF bm] r1 have r2: "statsReady (game t2)" by simp
  then have r3: "statsReady (game (countMove t2))" by (simp add: countMove_statsReady)
  show ?case
  proof (cases b)
    case False
    with ds show ?thesis by simp
  next
    case True
    show ?thesis
    proof (cases b2)
      case False
      with ds True bm Suc.IH [OF r2] show ?thesis by simp
    next
      case moved: True
      from winCheck_total [OF r3, of now i] ds True bm moved show ?thesis by auto
    qed
  qed
qed

lemma playerLoop_total: "statsReady (game t) \<Longrightarrow> \<exists>c. playerLoop now i m a t = Inr c"
proof (induction now i m a t rule: playerLoop.induct)
  case (1 now i movesMade attempts t)
  show ?case
  proof (cases "movesMade < 3 \<and> attempts < 5 \<and> gameActive (game t)")
    case False
    then show ?thesis by auto
  next
    case guard: True
    obtain b t1 where bm: "botMove i t = Inr (b, t1)" using botMove_total by blast
    from botMove_statsReady [OF bm] "1.prems" have r1: "statsReady (game t1)" by simp
    then have r2: "statsReady (game (countMove t1))" by (simp add: countMove_statsReady)
    show ?thesis
    proof (cases b)
      case False
      with guard bm drawRetry_total [OF r1, of now i 2] show ?thesis by simp
    next
      case moved: True
      from winCheck_total [OF r2, of now i] show ?thesis
      proof
        assume wc: "winCheck now i (countMove t1) = None"
        from moved have "b = True" by simp
        from "1.IH" [OF guard bm refl this wc r2] guard bm moved wc show ?thesis by simp
      next
        assume "\<exists>t'. winCheck now i (countMove t1) = Some (Inr (Return t'))"
        with guard bm moved show ?thesis by auto
      qed
    qed
  qed
qed

lemma botMove_fields:
  assumes "botMove i t = Inr (b, t')"
  shows "anyPlayerMoved t' = anyPlayerMoved t" and "staleMateCounter t' = staleMateCounter t"
    and "moveCount (game t') = moveCount (game t)" and "gameActive (game t') = gameActive (game t)"
    and "winner (game t') = winner (game t)"
    and "length (players (game t')) = length (players (game t))"
  using botMove_result [OF assms] by auto

lemma drawStep_fields:
  assumes "drawStep i t = (b, t')"
  shows "anyPlayerMoved t' = anyPlayerMoved t" and "staleMateCounter t' = staleMateCounter t"
    and "moveCount (game t') = moveCount (game t)" and "gameActive (game t') = gameActive (game t)"
    and "winner (game t') = winner (game t)"
    and "length (players (game t')) = length (players (game t))"
    and "dutchPiles (game t') = dutchPiles (game t)"
    and "map totalPlays (players (game t')) = map totalPlays (players (game t))"
    and "map handCards (players (game t')) = map handCards (players (game t))"
  using drawStep_result [OF assms]
  by (simp_all add: map_update_same drawCards_fields drawCards_handCards)

lemma keepsI:
  assumes "\<And>t t'. P t \<Longrightarrow> botMove i t = Inr (False, t') \<Longrightarrow> P t'"
    and "\<And>t t'. P t \<Longrightarrow> botMove i t = Inr (True, t') \<Longrightarrow> P (countMove t')"
    and "\<And>t t'. P t \<Longrightarrow> drawStep i t = (True, t') \<Longrightarrow> P t'"
    and "\<And>t t'. P t \<Longrightarrow> drawStep i t = (False, t') \<Longrightarrow>
           P (t'\<lparr>staleMateCounter := staleMateCounter t' + 1\<rparr>)"
    and "\<And>t g'. P t \<Longrightarrow> hasWon (players (game t) ! i) \<Longrightarrow>
           endRound (Some i) (now 0) (game t) = Inr g' \<Longrightarrow> R (t\<lparr>game := g'\<rparr>)"
  shows "keeps now i P R"
  unfolding keeps_def using assms by blast

section \<open>Winning\<close>

text \<open>
  The win check of \<^verbatim>\<open>playTurn\<close>: when a bot invocation has returned true and the player's
  blitz pile is empty after it, \<^verbatim>\<open>endRound\<close> names the player the winner and both places
  that invoke the bot return at once, and a return leaves the loop over the players.
\<close>

lemma winning_move:
  assumes "statsReady (game t)" and "botMove i t = Inr (True, t1)"
    and "hasWon (players (game t1) ! i)"
  shows "\<exists>g'. endRound (Some i) (now 0) (game (countMove t1)) = Inr g' \<and>
     \<not> gameActive g' \<and> winner g' = Some i \<and>
     (\<forall>m a. m < 3 \<and> a < 5 \<and> gameActive (game t) \<longrightarrow>
        playerLoop now i m a t = Inr (Return (countMove t1\<lparr>game := g'\<rparr>))) \<and>
     (\<forall>n t0. drawStep i t0 = (True, t) \<longrightarrow>
        drawRetry now i (Suc n) t0 = Inr (Return (countMove t1\<lparr>game := g'\<rparr>)))"
proof -
  from botMove_statsReady [OF assms(2)] assms(1) have "statsReady (game (countMove t1))"
    by (simp add: countMove_statsReady)
  from endRound_ok [OF this] obtain g'
    where e: "endRound (Some i) (now 0) (game (countMove t1)) = Inr g'" by blast
  from endRound_result(1,2) [OF e] have ended: "\<not> gameActive g'" "winner g' = Some i" .
  from assms(3) have "hasWon (players (game (countMove t1)) ! i)" by (simp add: countMove_def)
  with e have wc: "winCheck now i (countMove t1) = Some (Inr (Return (countMove t1\<lparr>game := g'\<rparr>)))"
    by (simp add: winCheck_def)
  have loop: "\<forall>m a. m < 3 \<and> a < 5 \<and> gameActive (game t) \<longrightarrow>
        playerLoop now i m a t = Inr (Return (countMove t1\<lparr>game := g'\<rparr>))"
    using assms(2) wc by simp
  have retry: "\<forall>n t0. drawStep i t0 = (True, t) \<longrightarrow>
        drawRetry now i (Suc n) t0 = Inr (Return (countMove t1\<lparr>game := g'\<rparr>))"
    using assms(2) wc by simp
  from e ended loop retry show ?thesis by blast
qed

lemma return_propagates:
  "gameActive (game tp) \<Longrightarrow> \<not> hasWon (players (game tp) ! i) \<Longrightarrow>
   playerLoop now i 0 0 tp = Inr (Return tw) \<Longrightarrow> playersLoop now (i # js) tp = Inr (Return tw)"
  "gameActive g \<Longrightarrow> playersLoop now [0..<length (players g)] (startTurn r g) = Inr (Return tw) \<Longrightarrow>
   playTurn r now g = Inr (True, game tw)"
  by (simp_all add: playTurn_def)

text \<open>
  The bot, however, never takes a card off the blitz pile: \<^verbatim>\<open>playCard\<close> gets the string
  of the source, for which \<^verbatim>\<open>removeCardFromSource\<close> removes nothing.  So the blitz piles
  are the same after every step of a turn, the win check never finds an empty blitz pile,
  and no call of \<^verbatim>\<open>playTurn\<close> on an active round names a winner.
\<close>

lemma botMove_blitz:
  assumes "botMove i t = Inr (b, t')"
  shows "map blitzPile (players (game t')) = map blitzPile (players (game t))"
proof -
  from botMove_result [OF assms] obtain p' d' r'
    where mm: "makeMove (rand t) (dutchPiles (game t)) (players (game t) ! i) = Inr (b, p', d', r')"
      and t': "t' = t\<lparr>game := (game t)\<lparr>players := (players (game t))[i := p'], dutchPiles := d'\<rparr>, rand := r'\<rparr>"
    by blast
  from makeMove_fields(2) [OF mm] t' show ?thesis by (simp add: map_update_same)
qed

lemma drawStep_blitz:
  assumes "drawStep i t = (b, t')"
  shows "map blitzPile (players (game t')) = map blitzPile (players (game t))"
  using drawStep_result [OF assms] by (simp add: map_update_same drawCards_fields)

lemma keeps_blitz:
  assumes "i < length bs" and "bs ! i \<noteq> []"
  shows "keeps now i
     (\<lambda>t. map blitzPile (players (game t)) = bs \<and> gameActive (game t) \<and> winner (game t) = w)
     (\<lambda>t. False)"
proof (rule keepsI)
  fix t t'
  assume "map blitzPile (players (game t)) = bs \<and> gameActive (game t) \<and> winner (game t) = w"
    and "botMove i t = Inr (False, t')"
  then show "map blitzPile (players (game t')) = bs \<and> gameActive (game t') \<and> winner (game t') = w"
    using botMove_blitz [of i t False t'] botMove_fields(4,5) [of i t False t'] by simp
next
  fix t t'
  assume "map blitzPile (players (game t)) = bs \<and> gameActive (game t) \<and> winner (game t) = w"
    and "botMove i t = Inr (True, t')"
  then show "map blitzPile (players (game (countMove t'))) = bs \<and> gameActive (game (countMove t')) \<and>
      winner (game (countMove t')) = w"
    using botMove_blitz [of i t True t'] botMove_fields(4,5) [of i t True t']
    by (simp add: countMove_def)
next
  fix t t'
  assume "map blitzPile (players (game t)) = bs \<and> gameActive (game t) \<and> winner (game t) = w"
    and "drawStep i t = (True, t')"
  then show "map blitzPile (players (game t')) = bs \<and> gameActive (game t') \<and> winner (game t') = w"
    using drawStep_blitz [of i t True t'] drawStep_fields(4,5) [of i t True t'] by simp
next
  fix t t'
  assume "map blitzPile (players (game t)) = bs \<and> gameActive (game t) \<and> winner (game t) = w"
    and "drawStep i t = (False, t')"
  then show "map blitzPile (players (game (t'\<lparr>staleMateCounter := staleMateCounter t' + 1\<rparr>))) = bs \<and>
      gameActive (game (t'\<lparr>staleMateCounter := staleMateCounter t' + 1\<rparr>)) \<and>
      winner (game (t'\<lparr>staleMateCounter := staleMateCounter t' + 1\<rparr>)) = w"
    using drawStep_blitz [of i t False t'] drawStep_fields(4,5) [of i t False t'] by simp
next
  fix t g'
  assume P: "map blitzPile (players (game t)) = bs \<and> gameActive (game t) \<and> winner (game t) = w"
    and won: "hasWon (players (game t) ! i)"
  from P assms(1) have "i < length (players (game t))" by auto
  then have "map blitzPile (players (game t)) ! i = blitzPile (players (game t) ! i)" by simp
  with P won assms(2) show False by (simp add: hasWon_def)
qed

lemma playerLoop_no_winner:
  assumes "i < length (players (game t))" and "\<not> hasWon (players (game t) ! i)"
    and "gameActive (game t)" and "playerLoop now i m a t = Inr c"
  shows "\<exists>t'. c = Proceed t' \<and> map blitzPile (players (game t')) = map blitzPile (players (game t)) \<and>
           gameActive (game t') \<and> winner (game t') = winner (game t)"
proof -
  let ?bs = "map blitzPile (players (game t))"
  from assms(1,2) have bs: "i < length ?bs" "?bs ! i \<noteq> []" by (simp_all add: hasWon_def)
  have "case c of
          Proceed t' \<Rightarrow> map blitzPile (players (game t')) = ?bs \<and> gameActive (game t') \<and>
            winner (game t') = winner (game t)
        | Return t' \<Rightarrow> False"
    by (rule playerLoop_rule [OF keeps_blitz [OF bs] _ assms(4)]) (simp add: assms(3))
  then show ?thesis by (cases c) simp_all
qed

lemma playersLoop_no_winner:
  assumes "\<forall>i\<in>set js. i < length (players (game t))" and "playersLoop now js t = Inr c"
    and "gameActive (game t)"
  shows "\<exists>t'. c = Proceed t' \<and> gameActive (game t') \<and> winner (game t') = winner (game t)"
  using assms
proof (induction js arbitrary: t)
  case Nil
  then show ?case by auto
next
  case (Cons i js)
  show ?case
  proof (cases "\<not> hasWon (players (game t) ! i)")
    case False
    with Cons.prems have "playersLoop now js t = Inr c" by simp
    from Cons.IH [OF _ this Cons.prems(3)] Cons.prems(1) show ?thesis by simp
  next
    case True
    from Cons.prems(2,3) True obtain c1 where pl: "playerLoop now i 0 0 t = Inr c1"
      by (auto split: sum.splits)
    from Cons.prems(1) have "i < length (players (game t))" by simp
    from playerLoop_no_winner [OF this True Cons.prems(3) pl] obtain t1
      where c1: "c1 = Proceed t1"
        and bs: "map blitzPile (players (game t1)) = map blitzPile (players (game t))"
        and act: "gameActive (game t1)" and win: "winner (game t1) = winner (game t)"
      by blast
    from bs have "length (players (game t1)) = length (players (game t))"
      by (rule map_eq_imp_length_eq)
    with Cons.prems(1) have idx: "\<forall>i\<in>set js. i < length (players (game t1))" by simp
    from Cons.prems(2,3) True pl c1 have "playersLoop now js t1 = Inr c" by simp
    from Cons.IH [OF idx this act] win show ?thesis by simp
  qed
qed

lemma playTurn_names_no_winner:
  assumes "gameActive g" and "playTurn r now g = Inr (b, g')"
  shows "if gameActive g' then winner g' = winner g else winner g' = None"
proof -
  from assms obtain c where pl: "playersLoop now [0..<length (players g)] (startTurn r g) = Inr c"
    by (auto simp: playTurn_def split: sum.splits)
  have "\<forall>i\<in>set [0..<length (players g)]. i < length (players (game (startTurn r g)))"
    by (simp add: startTurn_def)
  from playersLoop_no_winner [OF this pl] assms(1) obtain t
    where c: "c = Proceed t" and act: "gameActive (game t)" and win: "winner (game t) = winner g"
    by (auto simp: startTurn_def)
  let ?g1 = "(game t)\<lparr>roundDuration := elapsedSeconds (now 0) (game t)\<rparr>"
  show ?thesis
  proof (cases "\<not> anyPlayerMoved t \<and> staleMateCounter t \<ge> length (players ?g1)")
    case True
    with assms pl c have "endRound None (now 1) ?g1 = Inr g'"
      by (auto simp: playTurn_def Let_def split: sum.splits)
    from endRound_result(1,2) [OF this] show ?thesis by simp
  next
    case False
    with assms pl c have "g' = ?g1" by (auto simp: playTurn_def Let_def)
    with act win show ?thesis by simp
  qed
qed


lemma lastCard_turn:
  "playTurn steadyRnd steadyClock (soloGame lastCardHand) = Inr (True, lastCardAfter)"
  by (simp add: playTurn_def startTurn_def soloGame_def lastCardHand_def bareHand_def
        lastCardAfter_def steadyClock_def
        botMove_def makeMove_def drawStep_def countMove_def winCheck_def hasWon_def
        getAvailableCards_def drawCards_def topCard_def getMovePriority_def playCard_def
        removeCardFromSource_def Let_def upt_rec_numeral numeral_2_eq_2 numeral_3_eq_3
        elapsedSeconds_def fun_upd_def)

lemma lastCard_after:
  "gameActive lastCardAfter" "winner lastCardAfter = None"
  "blitzPile (players lastCardAfter ! 0) = [Card 1 Red]"
  "postPiles (players lastCardAfter ! 0) = [[Card 1 Red], [Card 1 Red], []]"
  "dutchPiles lastCardAfter Red = [Card 1 Red]" "moveCount lastCardAfter = 3"
  by (simp_all add: lastCardAfter_def soloGame_def lastCardHand_def)

section \<open>The bot with one blitz card left\<close>

lemma validHand_iff: "validHand p \<longleftrightarrow> (\<forall>c\<in>#handCards p. validCard c)"
  by (auto simp: validHand_def handCards_def list_all_iff)

text \<open>
  The priority of a candidate never includes the bonus for the blitz pile, since
  \<^verbatim>\<open>getMovePriority\<close> gets the string: a card from the blitz pile is rated like the same
  card from any other source.
\<close>

lemma priority_name:
  "getMovePriority st r c (Name n) tgt = getMovePriority st r c (Entry (Draw i)) tgt"
  by (simp add: getMovePriority_def)

lemma random_values: "random steadyRnd = 0" "random lateHalfRnd = 0"
  "random (nextRnd (nextRnd (nextRnd (nextRnd lateHalfRnd)))) = 1 / 2"
  by (simp_all add: random_def nextRnd_def steadyRnd_def lateHalfRnd_def unitZero.rep_eq unitHalf.rep_eq)

text \<open>
  C9.  The hand whose blitz pile is the single red 1, on empty Dutch piles.  The aggressive
  bot rates the placement of the red 1 on the red Dutch pile at 330 (with the bonus for the
  blitz pile it would be 480) and makes it; afterwards the blitz pile still holds the red
  1 and \<^verbatim>\<open>hasWon\<close> is false, and the turn of this player alone leaves the round
  active without a winner.  The balanced bot that also has the blue 1 revealed, with
  \<^verbatim>\<open>Math.random()\<close> returning 0 four times and then one half, rates the red 1 at 300 and
  the blue 1 at 310, and places the blue 1.  The claim has the red 1 selected for every
  outcome of the random component, and the blitz pile empty and the round won afterwards.
\<close>

theorem last_red_one_stays_on_blitz:
  "fst (getMovePriority Aggressive steadyRnd (Card 1 Red) (Name BlitzName) Dutch) = 330 \<and>
   fst (getMovePriority Aggressive steadyRnd (Card 1 Red) (Entry Blitz) Dutch) = 480 \<and>
   makeMove steadyRnd (\<lambda>c. []) lastCardHand =
     Inr (True, lastCardHand\<lparr>playsThisRound := 1, totalPlays := 1\<rparr>,
          (\<lambda>c. [])(Red := [Card 1 Red]), steadyRnd) \<and>
   blitzPile (lastCardHand\<lparr>playsThisRound := 1, totalPlays := 1\<rparr>) = [Card 1 Red] \<and>
   \<not> hasWon (lastCardHand\<lparr>playsThisRound := 1, totalPlays := 1\<rparr>) \<and>
   playTurn steadyRnd steadyClock (soloGame lastCardHand) = Inr (True, lastCardAfter) \<and>
   gameActive lastCardAfter \<and> winner lastCardAfter = None \<and>
   fst (getMovePriority Balanced lateHalfRnd (Card 1 Red) (Name BlitzName) Dutch) = 300 \<and>
   fst (getMovePriority Balanced (nextRnd (nextRnd (nextRnd (nextRnd lateHalfRnd))))
          (Card 1 Blue) (Name DrawName) Dutch) = 310 \<and>
   makeMove lateHalfRnd (\<lambda>c. []) twoOnesHand =
     Inr (True, twoOnesHand\<lparr>playsThisRound := 1, totalPlays := 1\<rparr>,
          (\<lambda>c. [])(Blue := [Card 1 Blue]), (nextRnd ^^ 8) lateHalfRnd)"
proof -
  have "fst (getMovePriority Aggressive steadyRnd (Card 1 Red) (Name BlitzName) Dutch) = 330"
    "fst (getMovePriority Aggressive steadyRnd (Card 1 Red) (Entry Blitz) Dutch) = 480"
    "fst (getMovePriority Balanced lateHalfRnd (Card 1 Red) (Name BlitzName) Dutch) = 300"
    "fst (getMovePriority Balanced (nextRnd (nextRnd (nextRnd (nextRnd lateHalfRnd))))
          (Card 1 Blue) (Name DrawName) Dutch) = 310"
    by (simp_all add: getMovePriority_def random_values)
  moreover have "makeMove steadyRnd (\<lambda>c. []) lastCardHand =
     Inr (True, lastCardHand\<lparr>playsThisRound := 1, totalPlays := 1\<rparr>,
          (\<lambda>c. [])(Red := [Card 1 Red]), steadyRnd)"
    by (simp add: makeMove_def lastCardHand_def bareHand_def
          getAvailableCards_def drawCards_def topCard_def getMovePriority_def playCard_def
          removeCardFromSource_def Let_def upt_rec_numeral)
  moreover have "blitzPile (lastCardHand\<lparr>playsThisRound := 1, totalPlays := 1\<rparr>) = [Card 1 Red]"
    "\<not> hasWon (lastCardHand\<lparr>playsThisRound := 1, totalPlays := 1\<rparr>)"
    by (simp_all add: lastCardHand_def hasWon_def)
  moreover have "makeMove lateHalfRnd (\<lambda>c. []) twoOnesHand =
     Inr (True, twoOnesHand\<lparr>playsThisRound := 1, totalPlays := 1\<rparr>,
          (\<lambda>c. [])(Blue := [Card 1 Blue]), (nextRnd ^^ 8) lateHalfRnd)"
    by (simp add: makeMove_def twoOnesHand_def bareHand_def
          getAvailableCards_def drawCards_def topCard_def getMovePriority_def playCard_def
          removeCardFromSource_def Let_def upt_rec_numeral eval_nat_numeral
          random_def nextRnd_def lateHalfRnd_def unitZero.rep_eq unitHalf.rep_eq)
  ultimately show ?thesis using lastCard_turn lastCard_after(1,2) by simp
qed
section \<open>A draw by the bot counts as a move\<close>

lemma draw_only_botMove:
  assumes "fst (candidates (rand t) (dutchPiles (game t)) (players (game t) ! i)) = []"
    and "fst (drawCards (refresh (players (game t) ! i)))"
    and "i < length (players (game t))"
  defines "t1 \<equiv> t\<lparr>game := (game t)\<lparr>players := (players (game t))
                      [i := snd (drawCards (refresh (players (game t) ! i)))],
                    dutchPiles := dutchPiles (game t)\<rparr>,
                  rand := snd (candidates (rand t) (dutchPiles (game t)) (players (game t) ! i))\<rparr>"
  shows "botMove i t = Inr (True, t1)"
    and "dutchPiles (game t1) = dutchPiles (game t)"
    and "handCards (players (game t1) ! i) = handCards (players (game t) ! i)"
    and "totalPlays (players (game t1) ! i) = totalPlays (players (game t) ! i)"
    and "playsThisRound (players (game t1) ! i) = playsThisRound (players (game t) ! i)"
    and "blitzPile (players (game t1) ! i) = blitzPile (players (game t) ! i)"
proof -
  from makeMove_draws [OF assms(1)] assms(2) show "botMove i t = Inr (True, t1)"
    by (simp add: botMove_def t1_def)
  show "dutchPiles (game t1) = dutchPiles (game t)" by (simp add: t1_def)
  from assms(3) show "handCards (players (game t1) ! i) = handCards (players (game t) ! i)"
    by (simp add: t1_def drawCards_handCards refresh_handCards)
  from assms(3) show "totalPlays (players (game t1) ! i) = totalPlays (players (game t) ! i)"
    and "playsThisRound (players (game t1) ! i) = playsThisRound (players (game t) ! i)"
    and "blitzPile (players (game t1) ! i) = blitzPile (players (game t) ! i)"
    by (simp_all add: t1_def drawCards_fields refresh_fields refresh_def)
qed

text \<open>
  C10.  A bot invocation that finds no candidate move and whose draw succeeds returns true
  without a placement: the Dutch piles, the cards of the hand and the play counters are as
  before.  \<^verbatim>\<open>playTurn\<close> counts it like a placement: the flag \<^verbatim>\<open>anyPlayerMoved\<close> is set,
  \<^verbatim>\<open>moveCount\<close> grows by one, and the player's loop goes on with one more of its three
  moves used (so that at the third move the loop ends); after a draw of the retry loop the
  invocation ends the player's turn as a move does.
\<close>

theorem draw_only_counts_as_move:
  assumes "fst (candidates (rand t) (dutchPiles (game t)) (players (game t) ! i)) = []"
    and "fst (drawCards (refresh (players (game t) ! i)))"
    and "i < length (players (game t))"
    and "\<not> hasWon (players (game t) ! i)"
  shows "\<exists>t1. botMove i t = Inr (True, t1) \<and>
     dutchPiles (game t1) = dutchPiles (game t) \<and>
     handCards (players (game t1) ! i) = handCards (players (game t) ! i) \<and>
     totalPlays (players (game t1) ! i) = totalPlays (players (game t) ! i) \<and>
     playsThisRound (players (game t1) ! i) = playsThisRound (players (game t) ! i) \<and>
     anyPlayerMoved (countMove t1) \<and>
     moveCount (game (countMove t1)) = moveCount (game t) + 1 \<and>
     (\<forall>m a. m < 3 \<and> a < 5 \<and> gameActive (game t) \<longrightarrow>
        playerLoop now i m a t = playerLoop now i (m + 1) (a + 1) (countMove t1)) \<and>
     (\<forall>a. a < 5 \<and> gameActive (game t) \<longrightarrow>
        playerLoop now i 2 a t = Inr (Proceed (countMove t1))) \<and>
     (\<forall>n t0. drawStep i t0 = (True, t) \<longrightarrow>
        drawRetry now i (Suc n) t0 = Inr (Proceed (countMove t1)))"
proof -
  note d = draw_only_botMove [OF assms(1,2,3)]
  let ?t1 = "t\<lparr>game := (game t)\<lparr>players := (players (game t))
                      [i := snd (drawCards (refresh (players (game t) ! i)))],
                    dutchPiles := dutchPiles (game t)\<rparr>,
                  rand := snd (candidates (rand t) (dutchPiles (game t)) (players (game t) ! i))\<rparr>"
  from d(6) assms(4) have "\<not> hasWon (players (game (countMove ?t1)) ! i)"
    by (simp add: hasWon_def countMove_def)
  then have wc: "winCheck now i (countMove ?t1) = None" by (simp add: winCheck_def)
  have flag: "anyPlayerMoved (countMove ?t1)"
    and cnt: "moveCount (game (countMove ?t1)) = moveCount (game t) + 1"
    by (simp_all add: countMove_def)
  have loop: "\<forall>m a. m < 3 \<and> a < 5 \<and> gameActive (game t) \<longrightarrow>
        playerLoop now i m a t = playerLoop now i (m + 1) (a + 1) (countMove ?t1)"
  proof (intro allI impI)
    fix m a :: nat
    assume "m < 3 \<and> a < 5 \<and> gameActive (game t)"
    with d(1) wc show "playerLoop now i m a t = playerLoop now i (m + 1) (a + 1) (countMove ?t1)"
      by (subst playerLoop.simps) simp
  qed
  have stop: "\<And>a. playerLoop now i 3 a (countMove ?t1) = Inr (Proceed (countMove ?t1))"
    by (subst playerLoop.simps) simp
  have third: "\<forall>a. a < 5 \<and> gameActive (game t) \<longrightarrow>
        playerLoop now i 2 a t = Inr (Proceed (countMove ?t1))"
  proof (intro allI impI)
    fix a :: nat
    assume g: "a < 5 \<and> gameActive (game t)"
    with loop have "playerLoop now i 2 a t = playerLoop now i (2 + 1) (a + 1) (countMove ?t1)"
      by simp
    with stop [of "a + 1"] show "playerLoop now i 2 a t = Inr (Proceed (countMove ?t1))"
      by simp
  qed
  have retry: "\<forall>n t0. drawStep i t0 = (True, t) \<longrightarrow>
        drawRetry now i (Suc n) t0 = Inr (Proceed (countMove ?t1))"
    using d(1) wc by simp
  from d(1,2,3,4,5) flag cnt loop third retry show ?thesis by blast
qed


text \<open>The example game: the bot has no candidate, draws, and has none again.\<close>

lemmas stuck_defs = stuckGame_def stuckHand_def soloGame_def bareHand_def startTurn_def

lemmas eval_defs = botMove_def makeMove_def drawStep_def countMove_def winCheck_def hasWon_def
  getAvailableCards_def drawCards_def topCard_def getMovePriority_def playCard_def
  removeCardFromSource_def Let_def upt_rec_numeral numeral_2_eq_2 numeral_3_eq_3
  candidates_def refresh_def elapsedSeconds_def

lemma stuck_no_candidates:
  "fst (candidates r (dutchPiles stuckGame) (players stuckGame ! 0)) = []"
  by (simp add: stuck_defs eval_defs)

lemma stuck_draws: "fst (drawCards (refresh (players stuckGame ! 0)))"
  by (simp add: stuck_defs eval_defs)

lemma stuck_loop:
  "playersLoop steadyClock [0..<length (players stuckGame)] (startTurn steadyRnd stuckGame) =
     Inr (Proceed stuckEnd)"
  by (simp add: stuckEnd_def stuck_defs eval_defs)

lemma stuck_turn: "playTurn steadyRnd steadyClock stuckGame = Inr (True, stuckAfter)"
  by (simp add: playTurn_def stuck_loop)
     (simp add: stuckEnd_def stuckAfter_def stuck_defs elapsedSeconds_def steadyClock_def)

text \<open>In the example game the draw of the bot uses the third move of the player.\<close>

theorem draw_only_counts_as_move_witness:
  "fst (candidates (rand (startTurn steadyRnd stuckGame)) (dutchPiles (game (startTurn steadyRnd stuckGame)))
         (players (game (startTurn steadyRnd stuckGame)) ! 0)) = [] \<and>
   fst (drawCards (refresh (players (game (startTurn steadyRnd stuckGame)) ! 0))) \<and>
   0 < length (players (game (startTurn steadyRnd stuckGame))) \<and>
   \<not> hasWon (players (game (startTurn steadyRnd stuckGame)) ! 0) \<and>
   (\<exists>t1. botMove 0 (startTurn steadyRnd stuckGame) = Inr (True, t1) \<and>
      dutchPiles (game t1) = dutchPiles stuckGame \<and>
      handCards (players (game t1) ! 0) = handCards stuckHand \<and>
      totalPlays (players (game t1) ! 0) = 35 \<and>
      anyPlayerMoved (countMove t1) \<and> moveCount (game (countMove t1)) = 41 \<and>
      playerLoop steadyClock 0 2 0 (startTurn steadyRnd stuckGame) = Inr (Proceed (countMove t1)))"
proof -
  let ?t = "startTurn steadyRnd stuckGame"
  have g: "game ?t = stuckGame" by (simp add: startTurn_def)
  have h1: "fst (candidates (rand ?t) (dutchPiles (game ?t)) (players (game ?t) ! 0)) = []"
    unfolding g by (rule stuck_no_candidates)
  have h2: "fst (drawCards (refresh (players (game ?t) ! 0)))"
    unfolding g by (rule stuck_draws)
  have h3: "0 < length (players (game ?t))" by (simp add: stuck_defs)
  have h4: "\<not> hasWon (players (game ?t) ! 0)" by (simp add: stuck_defs hasWon_def)
  have facts: "players stuckGame ! 0 = stuckHand" "totalPlays stuckHand = 35"
    "moveCount stuckGame = 40" "gameActive stuckGame"
    by (simp_all add: stuck_defs)
  from draw_only_counts_as_move [OF h1 h2 h3 h4, of steadyClock] h1 h2 h3 h4 facts g
  show ?thesis by (simp only: ) force
qed

section \<open>The result of a turn\<close>

text \<open>
  What the steps of a turn keep: the round stays active until \<^verbatim>\<open>endRound\<close>, the flag
  \<^verbatim>\<open>anyPlayerMoved\<close> is set exactly when \<^verbatim>\<open>moveCount\<close> has grown, nothing is placed
  while the flag is unset, and each player adds at most one stalemate vote.
\<close>

lemma botMove_False_fields:
  assumes "botMove i t = Inr (False, t')"
  shows "dutchPiles (game t') = dutchPiles (game t)"
    and "map totalPlays (players (game t')) = map totalPlays (players (game t))"
    and "map handCards (players (game t')) = map handCards (players (game t))"
proof -
  from botMove_result [OF assms] obtain p' d' r'
    where mm: "makeMove (rand t) (dutchPiles (game t)) (players (game t) ! i) = Inr (False, p', d', r')"
      and t': "t' = t\<lparr>game := (game t)\<lparr>players := (players (game t))[i := p'], dutchPiles := d'\<rparr>, rand := r'\<rparr>"
    by blast
  note f = makeMove_False [OF mm]
  from f(1) t' show "dutchPiles (game t') = dutchPiles (game t)" by simp
  from f(2) t' show "map totalPlays (players (game t')) = map totalPlays (players (game t))"
    by (simp add: map_update_same)
  from f(5) t' show "map handCards (players (game t')) = map handCards (players (game t))"
    by (simp add: map_update_same refresh_handCards)
qed

lemma keeps_active:
  "keeps now i
     (\<lambda>t. gameActive (game t) \<and> length (players (game t)) = n \<and> m0 \<le> moveCount (game t) \<and>
          anyPlayerMoved t = (m0 < moveCount (game t)))
     (\<lambda>t. \<not> gameActive (game t) \<and> winner (game t) \<noteq> None)"
proof (rule keepsI)
  fix t t'
  assume "gameActive (game t) \<and> length (players (game t)) = n \<and> m0 \<le> moveCount (game t) \<and>
          anyPlayerMoved t = (m0 < moveCount (game t))" and "botMove i t = Inr (False, t')"
  then show "gameActive (game t') \<and> length (players (game t')) = n \<and> m0 \<le> moveCount (game t') \<and>
          anyPlayerMoved t' = (m0 < moveCount (game t'))"
    using botMove_fields [of i t False t'] by simp
next
  fix t t'
  assume "gameActive (game t) \<and> length (players (game t)) = n \<and> m0 \<le> moveCount (game t) \<and>
          anyPlayerMoved t = (m0 < moveCount (game t))" and "botMove i t = Inr (True, t')"
  then show "gameActive (game (countMove t')) \<and> length (players (game (countMove t'))) = n \<and>
          m0 \<le> moveCount (game (countMove t')) \<and>
          anyPlayerMoved (countMove t') = (m0 < moveCount (game (countMove t')))"
    using botMove_fields [of i t True t'] by (simp add: countMove_def)
next
  fix t t'
  assume "gameActive (game t) \<and> length (players (game t)) = n \<and> m0 \<le> moveCount (game t) \<and>
          anyPlayerMoved t = (m0 < moveCount (game t))" and "drawStep i t = (True, t')"
  then show "gameActive (game t') \<and> length (players (game t')) = n \<and> m0 \<le> moveCount (game t') \<and>
          anyPlayerMoved t' = (m0 < moveCount (game t'))"
    using drawStep_fields [of i t True t'] by simp
next
  fix t t'
  assume "gameActive (game t) \<and> length (players (game t)) = n \<and> m0 \<le> moveCount (game t) \<and>
          anyPlayerMoved t = (m0 < moveCount (game t))" and "drawStep i t = (False, t')"
  then show "gameActive (game (t'\<lparr>staleMateCounter := staleMateCounter t' + 1\<rparr>)) \<and>
          length (players (game (t'\<lparr>staleMateCounter := staleMateCounter t' + 1\<rparr>))) = n \<and>
          m0 \<le> moveCount (game (t'\<lparr>staleMateCounter := staleMateCounter t' + 1\<rparr>)) \<and>
          anyPlayerMoved (t'\<lparr>staleMateCounter := staleMateCounter t' + 1\<rparr>) =
            (m0 < moveCount (game (t'\<lparr>staleMateCounter := staleMateCounter t' + 1\<rparr>)))"
    using drawStep_fields [of i t False t'] by simp
next
  fix t g'
  assume "endRound (Some i) (now 0) (game t) = Inr g'"
  then show "\<not> gameActive (game (t\<lparr>game := g'\<rparr>)) \<and> winner (game (t\<lparr>game := g'\<rparr>)) \<noteq> None"
    using endRound_result(1,2) [of "Some i" "now 0" "game t" g'] by simp
qed

lemma keeps_unplaced:
  "keeps now i
     (\<lambda>t. \<not> anyPlayerMoved t \<longrightarrow>
          map totalPlays (players (game t)) = tp0 \<and> dutchPiles (game t) = d0 \<and>
          map handCards (players (game t)) = hc0)
     (\<lambda>t. True)"
proof (rule keepsI)
  fix t t'
  assume "\<not> anyPlayerMoved t \<longrightarrow>
          map totalPlays (players (game t)) = tp0 \<and> dutchPiles (game t) = d0 \<and>
          map handCards (players (game t)) = hc0" and "botMove i t = Inr (False, t')"
  with botMove_fields(1) [of i t False t'] botMove_False_fields [of i t t']
  show "\<not> anyPlayerMoved t' \<longrightarrow>
          map totalPlays (players (game t')) = tp0 \<and> dutchPiles (game t') = d0 \<and>
          map handCards (players (game t')) = hc0"
    by simp
next
  fix t t'
  show "\<not> anyPlayerMoved (countMove t') \<longrightarrow>
     map totalPlays (players (game (countMove t'))) = tp0 \<and>
     dutchPiles (game (countMove t')) = d0 \<and> map handCards (players (game (countMove t'))) = hc0"
    by (simp add: countMove_def)
next
  fix t t'
  assume "\<not> anyPlayerMoved t \<longrightarrow>
          map totalPlays (players (game t)) = tp0 \<and> dutchPiles (game t) = d0 \<and>
          map handCards (players (game t)) = hc0" and "drawStep i t = (True, t')"
  with drawStep_fields(1,7,8,9) [of i t True t']
  show "\<not> anyPlayerMoved t' \<longrightarrow>
          map totalPlays (players (game t')) = tp0 \<and> dutchPiles (game t') = d0 \<and>
          map handCards (players (game t')) = hc0"
    by simp
next
  fix t t'
  assume "\<not> anyPlayerMoved t \<longrightarrow>
          map totalPlays (players (game t)) = tp0 \<and> dutchPiles (game t) = d0 \<and>
          map handCards (players (game t)) = hc0" and "drawStep i t = (False, t')"
  with drawStep_fields(1,7,8,9) [of i t False t']
  show "\<not> anyPlayerMoved (t'\<lparr>staleMateCounter := staleMateCounter t' + 1\<rparr>) \<longrightarrow>
     map totalPlays (players (game (t'\<lparr>staleMateCounter := staleMateCounter t' + 1\<rparr>))) = tp0 \<and>
     dutchPiles (game (t'\<lparr>staleMateCounter := staleMateCounter t' + 1\<rparr>)) = d0 \<and>
     map handCards (players (game (t'\<lparr>staleMateCounter := staleMateCounter t' + 1\<rparr>))) = hc0"
    by simp
qed simp


lemma keeps_ready: "keeps now i (\<lambda>t. statsReady (game t)) (\<lambda>t. True)"
proof (rule keepsI)
  fix t t'
  assume "statsReady (game t)" and "botMove i t = Inr (False, t')"
  then show "statsReady (game t')" using botMove_statsReady by blast
next
  fix t t'
  assume "statsReady (game t)" and "botMove i t = Inr (True, t')"
  then show "statsReady (game (countMove t'))"
    using botMove_statsReady countMove_statsReady by blast
next
  fix t t'
  assume "statsReady (game t)" and "drawStep i t = (True, t')"
  then show "statsReady (game t')" using drawStep_statsReady by blast
next
  fix t t'
  assume "statsReady (game t)" and "drawStep i t = (False, t')"
  then show "statsReady (game (t'\<lparr>staleMateCounter := staleMateCounter t' + 1\<rparr>))"
    using drawStep_statsReady [of i t False t'] by simp
qed simp

lemma playersLoop_total: "statsReady (game t) \<Longrightarrow> \<exists>c. playersLoop now is t = Inr c"
proof (induction "is" arbitrary: t)
  case Nil
  then show ?case by simp
next
  case (Cons i "is")
  from playerLoop_total [OF Cons.prems, of now i 0 0] obtain c1
    where pl: "playerLoop now i 0 0 t = Inr c1" by blast
  show ?case
  proof (cases c1)
    case (Proceed t1)
    from playerLoop_rule [OF keeps_ready Cons.prems pl] Proceed have "statsReady (game t1)" by simp
    from Cons.IH [OF this] Cons.IH [OF Cons.prems] pl Proceed show ?thesis by auto
  next
    case (Return t1)
    with pl Cons.IH [OF Cons.prems] show ?thesis by auto
  qed
qed

lemma playTurn_total:
  assumes "statsReady g"
  shows "\<exists>b g'. playTurn r now g = Inr (b, g')"
proof (cases "gameActive g")
  case False
  then show ?thesis by (auto simp: playTurn_def)
next
  case True
  have ready: "statsReady (game (startTurn r g))" using assms by (simp add: startTurn_def)
  from playersLoop_total [OF ready] obtain c
    where pl: "playersLoop now [0..<length (players g)] (startTurn r g) = Inr c" by blast
  show ?thesis
  proof (cases c)
    case (Return t)
    with pl True show ?thesis by (auto simp: playTurn_def)
  next
    case (Proceed t)
    have k: "\<forall>i\<in>set [0..<length (players g)]. keeps now i (\<lambda>t. statsReady (game t)) (\<lambda>t. True)"
      using keeps_ready by blast
    from playersLoop_rule [OF k ready pl] Proceed have "statsReady (game t)" by simp
    then have "statsReady (game t\<lparr>roundDuration := elapsedSeconds (now 0) (game t)\<rparr>)"
      by (simp add: statsReady_def)
    from endRound_ok [OF this, of None "now 1"] pl Proceed True show ?thesis
      by (auto simp: playTurn_def Let_def)
  qed
qed

lemma drawRetry_votes:
  "drawRetry now i n t = Inr c \<Longrightarrow> staleMateCounter (ctlTurn c) \<le> staleMateCounter t + 1"
proof (induction n arbitrary: t)
  case 0
  then show ?case by auto
next
  case (Suc n)
  obtain b t1 where ds: "drawStep i t = (b, t1)" by (cases "drawStep i t")
  note f1 = drawStep_fields(2) [OF ds]
  show ?case
  proof (cases b)
    case False
    with ds Suc.prems f1 show ?thesis by auto
  next
    case True
    from Suc.prems ds True obtain b2 t2 where bm: "botMove i t1 = Inr (b2, t2)"
      by (cases "botMove i t1") auto
    note f2 = botMove_fields(2) [OF bm]
    show ?thesis
    proof (cases b2)
      case False
      with Suc.prems ds True bm have "drawRetry now i n t2 = Inr c" by simp
      from Suc.IH [OF this] f1 f2 show ?thesis by simp
    next
      case moved: True
      show ?thesis
      proof (cases "hasWon (players (game (countMove t2)) ! i)")
        case False
        then have "winCheck now i (countMove t2) = None" by (simp add: winCheck_def)
        with Suc.prems ds True bm moved have "c = Proceed (countMove t2)" by simp
        with f1 f2 show ?thesis by (simp add: countMove_def)
      next
        case won: True
        then have "winCheck now i (countMove t2) =
          Some (case endRound (Some i) (now 0) (game (countMove t2)) of
                  Inl e \<Rightarrow> Inl e | Inr g' \<Rightarrow> Inr (Return (countMove t2\<lparr>game := g'\<rparr>)))"
          by (simp add: winCheck_def)
        with Suc.prems ds True bm moved obtain g'
          where "c = Return (countMove t2\<lparr>game := g'\<rparr>)"
          by (cases "endRound (Some i) (now 0) (game (countMove t2))") auto
        with f1 f2 show ?thesis by (simp add: countMove_def)
      qed
    qed
  qed
qed

lemma playerLoop_votes:
  "playerLoop now i m a t = Inr c \<Longrightarrow> staleMateCounter (ctlTurn c) \<le> staleMateCounter t + 1"
proof (induction now i m a t rule: playerLoop.induct)
  case (1 now i movesMade attempts t)
  show ?case
  proof (cases "movesMade < 3 \<and> attempts < 5 \<and> gameActive (game t)")
    case False
    with "1.prems" have "c = Proceed t" by auto
    then show ?thesis by simp
  next
    case guard: True
    with "1.prems" obtain b t1 where bm: "botMove i t = Inr (b, t1)"
      by (cases "botMove i t") auto
    note f = botMove_fields(2) [OF bm]
    show ?thesis
    proof (cases b)
      case False
      with "1.prems" guard bm have "drawRetry now i 2 t1 = Inr c" by simp
      from drawRetry_votes [OF this] f show ?thesis by simp
    next
      case moved: True
      show ?thesis
      proof (cases "hasWon (players (game (countMove t1)) ! i)")
        case False
        then have wc: "winCheck now i (countMove t1) = None" by (simp add: winCheck_def)
        with "1.prems" guard bm moved
        have "playerLoop now i (movesMade + 1) (attempts + 1) (countMove t1) = Inr c" by simp
        moreover from moved have "b = True" by simp
        ultimately have "staleMateCounter (ctlTurn c) \<le> staleMateCounter (countMove t1) + 1"
          using "1.IH" [OF guard bm refl _ wc] by blast
        with f show ?thesis by (simp add: countMove_def)
      next
        case won: True
        then have "winCheck now i (countMove t1) =
          Some (case endRound (Some i) (now 0) (game (countMove t1)) of
                  Inl e \<Rightarrow> Inl e | Inr g' \<Rightarrow> Inr (Return (countMove t1\<lparr>game := g'\<rparr>)))"
          by (simp add: winCheck_def)
        with "1.prems" guard bm moved obtain g'
          where "c = Return (countMove t1\<lparr>game := g'\<rparr>)"
          by (cases "endRound (Some i) (now 0) (game (countMove t1))") auto
        with f show ?thesis by (simp add: countMove_def)
      qed
    qed
  qed
qed

lemma playersLoop_votes:
  "playersLoop now is t = Inr c \<Longrightarrow> staleMateCounter (ctlTurn c) \<le> staleMateCounter t + length is"
proof (induction "is" arbitrary: t)
  case Nil
  then show ?case by auto
next
  case (Cons i "is")
  show ?case
  proof (cases "gameActive (game t) \<and> \<not> hasWon (players (game t) ! i)")
    case False
    with Cons.prems have "playersLoop now is t = Inr c" by auto
    from Cons.IH [OF this] show ?thesis by simp
  next
    case True
    with Cons.prems obtain c1 where pl: "playerLoop now i 0 0 t = Inr c1"
      by (cases "playerLoop now i 0 0 t") auto
    note v = playerLoop_votes [OF pl]
    show ?thesis
    proof (cases c1)
      case (Proceed t1)
      with Cons.prems True pl have "playersLoop now is t1 = Inr c" by simp
      from Cons.IH [OF this] v Proceed show ?thesis by simp
    next
      case (Return t1)
      with Cons.prems True pl have "c = Return t1" by simp
      with v Return show ?thesis by simp
    qed
  qed
qed

section \<open>Stalemate and the boolean of a turn\<close>

text \<open>The three ways a turn of an active round ends.\<close>

lemma playTurn_cases:
  assumes "gameActive g" and "playTurn r now g = Inr (b, g')"
  obtains (won) t where "playersLoop now [0..<length (players g)] (startTurn r g) = Inr (Return t)"
      "b" "g' = game t" "\<not> gameActive g'" "winner g' \<noteq> None"
  | (stalemate) t where "playersLoop now [0..<length (players g)] (startTurn r g) = Inr (Proceed t)"
      "\<not> anyPlayerMoved t" "staleMateCounter t = length (players g)"
      "moveCount (game t) = moveCount g"
      "b" "\<not> gameActive g'" "winner g' = None"
  | (goes_on) t where "playersLoop now [0..<length (players g)] (startTurn r g) = Inr (Proceed t)"
      "\<not> (\<not> anyPlayerMoved t \<and> staleMateCounter t = length (players g))"
      "anyPlayerMoved t = (moveCount g < moveCount (game t))"
      "b = anyPlayerMoved t" "g' = (game t)\<lparr>roundDuration := elapsedSeconds (now 0) (game t)\<rparr>"
      "gameActive g'"
proof -
  let ?n = "length (players g)"
  let ?P = "\<lambda>t. gameActive (game t) \<and> length (players (game t)) = ?n \<and> moveCount g \<le> moveCount (game t) \<and>
          anyPlayerMoved t = (moveCount g < moveCount (game t))"
  let ?R = "\<lambda>t. \<not> gameActive (game t) \<and> winner (game t) \<noteq> None"
  from assms obtain c where pl: "playersLoop now [0..<?n] (startTurn r g) = Inr c"
    by (cases "playersLoop now [0..<?n] (startTurn r g)") (auto simp: playTurn_def)
  have k: "\<forall>i\<in>set [0..<?n]. keeps now i ?P ?R" using keeps_active by blast
  have init: "?P (startTurn r g)" using assms(1) by (simp add: startTurn_def)
  from playersLoop_rule [OF k init pl] have post: "case c of Proceed t' \<Rightarrow> ?P t' | Return t' \<Rightarrow> ?R t'" .
  show ?thesis
  proof (cases c)
    case (Return t)
    with pl assms have "b" "g' = game t" by (simp_all add: playTurn_def)
    moreover from post Return have "?R t" by simp
    ultimately show ?thesis using won pl Return by simp
  next
    case (Proceed t)
    with post have p: "?P t" by simp
    from playersLoop_votes [OF pl] Proceed have v: "staleMateCounter t \<le> ?n"
      by (simp add: startTurn_def)
    let ?g1 = "(game t)\<lparr>roundDuration := elapsedSeconds (now 0) (game t)\<rparr>"
    show ?thesis
    proof (cases "\<not> anyPlayerMoved t \<and> staleMateCounter t = ?n")
      case True
      with pl Proceed assms p obtain g2 where e: "endRound None (now 1) ?g1 = Inr g2"
        and res: "b" "g' = g2"
        by (cases "endRound None (now 1) ?g1") (auto simp: playTurn_def Let_def)
      from endRound_result(1,2) [OF e] res have "\<not> gameActive g'" "winner g' = None" by simp_all
      moreover from True p have "moveCount (game t) = moveCount g" by auto
      ultimately show ?thesis using stalemate pl Proceed True res(1) by simp
    next
      case False
      with v p have "\<not> (\<not> anyPlayerMoved t \<and> length (players ?g1) \<le> staleMateCounter t)"
        by auto
      with pl Proceed assms have "b = anyPlayerMoved t" "g' = ?g1"
        by (auto simp: playTurn_def Let_def split: if_splits)
      with goes_on pl Proceed False p show ?thesis by simp
    qed
  qed
qed

text \<open>
  C3 (amended).  A turn of an active round ends the round without a winner and returns
  true exactly when no bot invocation of the turn returned true (neither a placement nor
  a draw made by the bot: \<^verbatim>\<open>anyPlayerMoved\<close> is unset and \<^verbatim>\<open>moveCount\<close> is as before)
  and the number of stalemate votes equals the number of players.
\<close>

theorem stalemate_iff_no_move_and_all_votes:
  assumes "gameActive g" and "playTurn r now g = Inr (b, g')"
  shows "(b \<and> \<not> gameActive g' \<and> winner g' = None) =
     (\<exists>t. playersLoop now [0..<length (players g)] (startTurn r g) = Inr (Proceed t) \<and>
          \<not> anyPlayerMoved t \<and> moveCount (game t) = moveCount g \<and>
          staleMateCounter t = length (players g))"
  using assms
proof (cases rule: playTurn_cases)
  case (won t)
  then show ?thesis by simp
next
  case (stalemate t)
  then show ?thesis by simp
next
  case (goes_on t)
  then show ?thesis by auto
qed

text \<open>
  C5 (amended).  A turn of an active round that does not end the round returns true
  exactly when at least one bot invocation returned true, a placement or a draw made by the
  bot, each of which adds one to \<^verbatim>\<open>moveCount\<close>; when it returns false, no card was placed:
  the play counters, the cards of every hand and the Dutch piles are as before.
\<close>

theorem playTurn_true_iff_bot_moved:
  assumes "gameActive g" and "playTurn r now g = Inr (b, g')" and "gameActive g'"
  shows "b = (moveCount g < moveCount g') \<and>
     (\<not> b \<longrightarrow> map totalPlays (players g') = map totalPlays (players g) \<and>
              dutchPiles g' = dutchPiles g \<and>
              map handCards (players g') = map handCards (players g))"
  using assms(1,2)
proof (cases rule: playTurn_cases)
  case (won t)
  with assms(3) show ?thesis by simp
next
  case (stalemate t)
  with assms(3) show ?thesis by simp
next
  case (goes_on t)
  let ?P = "\<lambda>t. \<not> anyPlayerMoved t \<longrightarrow>
          map totalPlays (players (game t)) = map totalPlays (players g) \<and>
          dutchPiles (game t) = dutchPiles g \<and>
          map handCards (players (game t)) = map handCards (players g)"
  have k: "\<forall>i\<in>set [0..<length (players g)]. keeps now i ?P (\<lambda>t. True)"
    using keeps_unplaced by blast
  have init: "?P (startTurn r g)" by (simp add: startTurn_def)
  from playersLoop_rule [OF k init goes_on(1)] have "?P t" by simp
  with goes_on show ?thesis by simp
qed


text \<open>The example game: its first turn places nothing, its second ends the round.\<close>

lemma stuck_unplaced:
  "map totalPlays (players stuckAfter) = map totalPlays (players stuckGame)"
  "map handCards (players stuckAfter) = map handCards (players stuckGame)"
  "map blitzPile (players stuckAfter) = map blitzPile (players stuckGame)"
  "map postPiles (players stuckAfter) = map postPiles (players stuckGame)"
  "dutchPiles stuckAfter = dutchPiles stuckGame"
  "gameActive stuckGame" "gameActive stuckAfter" "winner stuckAfter = None"
  "game stuckEnd = stuckAfter\<lparr>roundDuration := 0\<rparr>"
  "staleMateCounter stuckEnd = length (players stuckGame)"
  "moveCount stuckGame < moveCount stuckAfter"
  by (simp_all add: stuckAfter_def stuckEnd_def stuck_defs handCards_def)

lemma stuck_second_loop:
  "playersLoop steadyClock [0..<length (players stuckAfter)] (startTurn steadyRnd stuckAfter) =
     Inr (Proceed \<lparr>game = stuckAfter, anyPlayerMoved = False, staleMateCounter = 1, rand = steadyRnd\<rparr>)"
  by (simp add: stuckAfter_def stuck_defs eval_defs)

lemma stuck_second_turn: "playTurn steadyRnd steadyClock stuckAfter = Inr (True, stuckOver)"
  by (simp add: playTurn_def stuck_second_loop)
     (simp add: stuckOver_def stuckAfter_def stuck_defs elapsedSeconds_def steadyClock_def
        endRound_def updateStats_def jsRound_def Let_def)

text \<open>
  C3 as stated fails: in the turn of the example game no card is placed and the only
  player casts its stalemate vote, yet the round goes on, because the draw of the bot has
  set \<^verbatim>\<open>anyPlayerMoved\<close>.
\<close>

theorem votes_complete_round_goes_on:
  "gameActive stuckGame \<and>
   playersLoop steadyClock [0..<length (players stuckGame)] (startTurn steadyRnd stuckGame) =
     Inr (Proceed stuckEnd) \<and>
   staleMateCounter stuckEnd = length (players stuckGame) \<and>
   map totalPlays (players stuckAfter) = map totalPlays (players stuckGame) \<and>
   map postPiles (players stuckAfter) = map postPiles (players stuckGame) \<and>
   dutchPiles stuckAfter = dutchPiles stuckGame \<and>
   playTurn steadyRnd steadyClock stuckGame = Inr (True, stuckAfter) \<and>
   gameActive stuckAfter \<and> winner stuckAfter = None"
  using stuck_loop stuck_turn stuck_unplaced by simp

text \<open>The next turn of the example game is a stalemate.\<close>

theorem stalemate_iff_no_move_and_all_votes_witness:
  "gameActive stuckAfter \<and> playTurn steadyRnd steadyClock stuckAfter = Inr (True, stuckOver) \<and>
   \<not> gameActive stuckOver \<and> winner stuckOver = None \<and>
   (\<exists>t. playersLoop steadyClock [0..<length (players stuckAfter)] (startTurn steadyRnd stuckAfter) =
           Inr (Proceed t) \<and>
        \<not> anyPlayerMoved t \<and> moveCount (game t) = moveCount stuckAfter \<and>
        staleMateCounter t = length (players stuckAfter))"
proof -
  have over: "\<not> gameActive stuckOver" "winner stuckOver = None"
    by (simp_all add: stuckOver_def stuckAfter_def stuck_defs)
  from stalemate_iff_no_move_and_all_votes [OF stuck_unplaced(7) stuck_second_turn] over
  have "\<exists>t. playersLoop steadyClock [0..<length (players stuckAfter)] (startTurn steadyRnd stuckAfter) =
           Inr (Proceed t) \<and>
        \<not> anyPlayerMoved t \<and> moveCount (game t) = moveCount stuckAfter \<and>
        staleMateCounter t = length (players stuckAfter)"
    by simp
  with stuck_unplaced(7) stuck_second_turn over show ?thesis by blast
qed

text \<open>
  C5 as stated fails: the turn of the example game does not end the round and places no
  card (blitz pile, post piles and Dutch piles are as before), yet it returns true.
\<close>

theorem true_without_placement:
  "gameActive stuckGame \<and> playTurn steadyRnd steadyClock stuckGame = Inr (True, stuckAfter) \<and>
   gameActive stuckAfter \<and>
   map totalPlays (players stuckAfter) = map totalPlays (players stuckGame) \<and>
   map blitzPile (players stuckAfter) = map blitzPile (players stuckGame) \<and>
   map postPiles (players stuckAfter) = map postPiles (players stuckGame) \<and>
   map handCards (players stuckAfter) = map handCards (players stuckGame) \<and>
   dutchPiles stuckAfter = dutchPiles stuckGame"
  using stuck_turn stuck_unplaced by simp

text \<open>In that turn \<^verbatim>\<open>moveCount\<close> grows from 40 to 41.\<close>

theorem playTurn_true_iff_bot_moved_witness:
  "gameActive stuckGame \<and> playTurn steadyRnd steadyClock stuckGame = Inr (True, stuckAfter) \<and>
   gameActive stuckAfter \<and> True = (moveCount stuckGame < moveCount stuckAfter)"
  using playTurn_true_iff_bot_moved [OF stuck_unplaced(6) stuck_turn stuck_unplaced(7)]
    stuck_unplaced(6,7) stuck_turn
  by blast

section \<open>The Dutch piles build upward\<close>

text \<open>
  A bot invocation keeps the hand within the cards of the deck and the Dutch piles built;
  so do the steps of a turn, the start of a round and the constructor.
\<close>

lemma foundationsBuilt_iff: "foundationsBuilt d \<longleftrightarrow> (\<forall>c. foundationPile c (d c))"
proof -
  have "set colors = UNIV"
  proof -
    have "\<And>c. c \<in> set colors" 
    proof -
      fix c show "c \<in> set colors" by (cases c) (simp_all add: colors_def)
    qed
    then show ?thesis by auto
  qed
  then show ?thesis by (simp add: foundationsBuilt_def list_all_iff)
qed

lemma upto_snoc: "[1..int (Suc n)] = [1..int n] @ [int n + 1]"
proof -
  have "1 \<le> int (Suc n)" by simp
  then have "[1..int (Suc n)] = [1..int (Suc n) - 1] @ [int (Suc n)]" by (rule upto_rec2)
  then show ?thesis by (simp add: add.commute)
qed

lemma foundationPile_push:
  assumes "foundationPile (color c) pile" and "canPlayOn c (topCard pile)" and "validCard c"
  shows "foundationPile (color c) (pile @ [c])"
proof -
  obtain n where n: "n = length pile" by simp
  from assms(1) n have pile: "pile = map (\<lambda>v. Card v (color c)) [1..int n]"
    by (simp add: foundationPile_def)
  have val: "cvalue c = int n + 1"
  proof (cases n)
    case 0
    with pile assms(2) show ?thesis by (simp add: topCard_def)
  next
    case (Suc k)
    with pile have "pile = map (\<lambda>v. Card v (color c)) [1..int k] @ [Card (int k + 1) (color c)]"
      by (simp only: upto_snoc map_append list.map)
    then have "pile \<noteq> []" "last pile = Card (int k + 1) (color c)" by simp_all
    with assms(2) Suc show ?thesis by (simp add: topCard_def)
  qed
  have "c = Card (cvalue c) (color c)" by simp
  with val have c: "c = Card (int n + 1) (color c)" by simp
  have "map (\<lambda>v. Card v (color c)) [1..int (Suc n)] = pile @ [Card (int n + 1) (color c)]"
    using pile by (simp only: upto_snoc map_append list.map)
  with c have "pile @ [c] = map (\<lambda>v. Card v (color c)) [1..int (Suc n)]" by simp
  moreover have "length (pile @ [c]) = Suc n" using n by simp
  moreover from val assms(3) have "Suc n \<le> 10" by (simp add: validCard_def)
  ultimately show ?thesis by (simp only: foundationPile_def)
qed

lemma validHand_sub: "validHand p \<Longrightarrow> handCards p' \<subseteq># handCards p \<Longrightarrow> validHand p'"
  by (auto simp: validHand_iff dest: mset_subset_eqD)

lemma makeMove_sound:
  assumes "makeMove r d p = Inr (b, p', d', r')" and "validHand p" and "foundationsBuilt d"
  shows "validHand p'" and "foundationsBuilt d'"
proof -
  have rp: "handCards (refresh p) = handCards p" by (rule refresh_handCards)
  have "validHand p' \<and> foundationsBuilt d'"
  proof (cases "fst (candidates r d p) = []")
    case True
    from makeMove_draws [OF this] assms(1)
    have "p' = snd (drawCards (refresh p))" "d' = d" by simp_all
    with assms(2,3) rp show ?thesis
      by (simp add: validHand_iff drawCards_handCards)
  next
    case False
    from makeMove_plays [OF this] assms(1) obtain c n tgt
      where av: "c \<in> fst ` set (getAvailableCards (refresh p))"
        and pc: "playCard c (Name n) d tgt (refresh p) = Inr (True, p', d')"
      by auto
    from av obtain src where "(c, src) \<in> set (getAvailableCards (refresh p))" by auto
    from available_in_hand [OF this] rp assms(2) have vc: "validCard c"
      by (simp add: validHand_iff)
    show ?thesis
    proof (cases tgt)
      case (Some k)
      from playCard_name_post(1,5) [OF pc [unfolded Some]] rp assms(2,3) vc
      show ?thesis by (simp add: validHand_iff)
    next
      case None
      note pd = playCard_name_dutch [OF pc [unfolded None]]
      from pd(4) rp assms(2) have v: "validHand p'" by (simp add: validHand_iff)
      from assms(3) have "foundationPile (color c) (d (color c))" by (simp add: foundationsBuilt_iff)
      from foundationPile_push [OF this pd(3) vc] assms(3) pd(1)
      have "foundationsBuilt d'" by (simp add: foundationsBuilt_iff)
      with v show ?thesis by simp
    qed
  qed
  then show "validHand p'" and "foundationsBuilt d'" by simp_all
qed


lemma soundGame_update:
  assumes "soundGame g" and "validHand p'" and "foundationsBuilt d'"
  shows "soundGame (g\<lparr>players := (players g)[i := p'], dutchPiles := d'\<rparr>)"
proof -
  have "set ((players g)[i := p']) \<subseteq> insert p' (set (players g))"
    by (rule set_update_subset_insert)
  with assms show ?thesis by (auto simp: soundGame_def list_all_iff)
qed

lemma soundGame_nth: "soundGame g \<Longrightarrow> i < length (players g) \<Longrightarrow> validHand (players g ! i)"
  by (simp add: soundGame_def list_all_length)

lemma validHand_wins: "validHand (p\<lparr>wins := w\<rparr>) = validHand p"
  by (simp add: validHand_def)

lemma drawCards_valid: "validHand p \<Longrightarrow> validHand (snd (drawCards p))"
  by (simp add: validHand_iff drawCards_handCards)

lemma keeps_sound:
  assumes "i < n"
  shows "keeps now i (\<lambda>t. soundGame (game t) \<and> length (players (game t)) = n)
                     (\<lambda>t. soundGame (game t) \<and> length (players (game t)) = n)"
proof -
  have bot: "\<And>t b t'. soundGame (game t) \<and> length (players (game t)) = n \<Longrightarrow>
      botMove i t = Inr (b, t') \<Longrightarrow> soundGame (game t') \<and> length (players (game t')) = n"
  proof -
    fix t b t'
    assume s: "soundGame (game t) \<and> length (players (game t)) = n" and bm: "botMove i t = Inr (b, t')"
    from botMove_result [OF bm] obtain p' d' r'
      where mm: "makeMove (rand t) (dutchPiles (game t)) (players (game t) ! i) = Inr (b, p', d', r')"
        and t': "t' = t\<lparr>game := (game t)\<lparr>players := (players (game t))[i := p'], dutchPiles := d'\<rparr>, rand := r'\<rparr>"
      by blast
    from s assms have "validHand (players (game t) ! i)" by (simp add: soundGame_nth)
    moreover from s have "foundationsBuilt (dutchPiles (game t))" by (simp add: soundGame_def)
    ultimately have "validHand p'" "foundationsBuilt d'" using makeMove_sound [OF mm] by simp_all
    with s t' soundGame_update [of "game t" p' d' i]
    show "soundGame (game t') \<and> length (players (game t')) = n" by simp
  qed
  have draw: "\<And>t b t'. soundGame (game t) \<and> length (players (game t)) = n \<Longrightarrow>
      drawStep i t = (b, t') \<Longrightarrow> soundGame (game t') \<and> length (players (game t')) = n"
  proof -
    fix t b t'
    assume s: "soundGame (game t) \<and> length (players (game t)) = n" and ds: "drawStep i t = (b, t')"
    from s assms have "validHand (snd (drawCards (players (game t) ! i)))"
      by (simp add: soundGame_nth drawCards_valid)
    moreover from s have "foundationsBuilt (dutchPiles (game t))" by (simp add: soundGame_def)
    ultimately have "soundGame ((game t)\<lparr>players := (players (game t))
        [i := snd (drawCards (players (game t) ! i))], dutchPiles := dutchPiles (game t)\<rparr>)"
      using s soundGame_update by blast
    with drawStep_result [OF ds] s
    show "soundGame (game t') \<and> length (players (game t')) = n" by simp
  qed
  show ?thesis
  proof (rule keepsI)
    fix t t'
    assume "soundGame (game t) \<and> length (players (game t)) = n" and "botMove i t = Inr (False, t')"
    then show "soundGame (game t') \<and> length (players (game t')) = n" by (rule bot)
  next
    fix t t'
    assume "soundGame (game t) \<and> length (players (game t)) = n" and "botMove i t = Inr (True, t')"
    then have "soundGame (game t') \<and> length (players (game t')) = n" by (rule bot)
    then show "soundGame (game (countMove t')) \<and> length (players (game (countMove t'))) = n"
      by (simp add: countMove_def soundGame_def)
  next
    fix t t'
    assume "soundGame (game t) \<and> length (players (game t)) = n" and "drawStep i t = (True, t')"
    then show "soundGame (game t') \<and> length (players (game t')) = n" by (rule draw)
  next
    fix t t'
    assume "soundGame (game t) \<and> length (players (game t)) = n" and "drawStep i t = (False, t')"
    then have "soundGame (game t') \<and> length (players (game t')) = n" by (rule draw)
    then show "soundGame (game (t'\<lparr>staleMateCounter := staleMateCounter t' + 1\<rparr>)) \<and>
       length (players (game (t'\<lparr>staleMateCounter := staleMateCounter t' + 1\<rparr>))) = n" by simp
  next
    fix t g'
    assume s: "soundGame (game t) \<and> length (players (game t)) = n"
      and e: "endRound (Some i) (now 0) (game t) = Inr g'"
    let ?p = "(players (game t) ! i)\<lparr>wins := wins (players (game t) ! i) + 1\<rparr>"
    from s assms have "validHand ?p" by (simp add: soundGame_nth validHand_wins)
    moreover from s have "foundationsBuilt (dutchPiles (game t))" by (simp add: soundGame_def)
    ultimately have "soundGame ((game t)\<lparr>players := (players (game t))[i := ?p],
         dutchPiles := dutchPiles (game t)\<rparr>)"
      using s soundGame_update by blast
    with endRound_result(3,6) [OF e] s
    show "soundGame (game (t\<lparr>game := g'\<rparr>)) \<and> length (players (game (t\<lparr>game := g'\<rparr>))) = n"
      by (simp add: soundGame_def)
  qed
qed

lemma playTurn_sound:
  assumes "soundGame g" and "playTurn r now g = Inr (b, g')"
  shows "soundGame g'" and "length (players g') = length (players g)"
proof -
  let ?n = "length (players g)"
  let ?P = "\<lambda>t. soundGame (game t) \<and> length (players (game t)) = ?n"
  have "?P \<lparr>game = g', anyPlayerMoved = False, staleMateCounter = 0, rand = r\<rparr>"
  proof (cases "gameActive g")
    case False
    with assms show ?thesis by (simp add: playTurn_def)
  next
    case True
    with assms(2) obtain c where pl: "playersLoop now [0..<?n] (startTurn r g) = Inr c"
      by (cases "playersLoop now [0..<?n] (startTurn r g)") (auto simp: playTurn_def)
    have k: "\<forall>i\<in>set [0..<?n]. keeps now i ?P ?P" using keeps_sound by simp
    have init: "?P (startTurn r g)" using assms(1) by (simp add: startTurn_def)
    from playersLoop_rule [OF k init pl] have post: "?P (ctlTurn c)" by (cases c) simp_all
    show ?thesis
    proof (cases c)
      case (Return t)
      with pl assms(2) True have "g' = game t" by (simp add: playTurn_def)
      with post Return show ?thesis by simp
    next
      case (Proceed t)
      let ?g1 = "(game t)\<lparr>roundDuration := elapsedSeconds (now 0) (game t)\<rparr>"
      from post Proceed have g1: "soundGame ?g1 \<and> length (players ?g1) = ?n"
        by (simp add: soundGame_def)
      show ?thesis
      proof (cases "\<not> anyPlayerMoved t \<and> length (players ?g1) \<le> staleMateCounter t")
        case stale: True
        with pl Proceed assms(2) True obtain g2 where e: "endRound None (now 1) ?g1 = Inr g2"
          and "g' = g2"
          by (cases "endRound None (now 1) ?g1") (auto simp: playTurn_def Let_def)
        with endRound_result(3,6) [OF e] g1 show ?thesis by (simp add: soundGame_def)
      next
        case False
        with pl Proceed assms(2) True have "g' = ?g1"
          by (auto simp: playTurn_def Let_def split: if_splits)
        with g1 show ?thesis by simp
      qed
    qed
  qed
  then show "soundGame g'" and "length (players g') = length (players g)" by simp_all
qed


lemma initializeCards_valid: "validHand (fst (initializeCards r p))"
  by (simp add: validHand_iff initializeCards_handCards newDeck_set validCard_def)

lemma initializePlayers_props:
  "list_all validHand (fst (initializePlayers r ps))"
  "map name (fst (initializePlayers r ps)) = map name ps"
  "length (fst (initializePlayers r ps)) = length ps"
proof (induction ps arbitrary: r)
  case Nil
  {
    case 1 show ?case by simp
  next
    case 2 show ?case by simp
  next
    case 3 show ?case by simp
  }
next
  case (Cons p ps)
  {
    case 1
    from Cons(1) [of "snd (initializeCards r p)"] show ?case
      by (simp add: case_prod_beta initializeCards_valid)
  next
    case 2
    from Cons(2) [of "snd (initializeCards r p)"] show ?case
      by (simp add: case_prod_beta initializeCards_fields)
  next
    case 3
    from Cons(3) [of "snd (initializeCards r p)"] show ?case
      by (simp add: case_prod_beta)
  }
qed

lemma foundationsBuilt_empty: "foundationsBuilt (\<lambda>c. [])"
  by (simp add: foundationsBuilt_iff foundationPile_def)

lemma startNewRound_sound:
  "soundGame (startNewRound r now g)"
  "statsReady (startNewRound r now g) = statsReady g"
  "length (players (startNewRound r now g)) = length (players g)"
proof -
  show "soundGame (startNewRound r now g)"
    by (simp add: soundGame_def startNewRound_def initializePlayers_props foundationsBuilt_empty)
  show "statsReady (startNewRound r now g) = statsReady g"
    by (rule statsReady_cong) (simp_all add: startNewRound_def initializePlayers_props)
  show "length (players (startNewRound r now g)) = length (players g)"
    by (simp add: startNewRound_def initializePlayers_props)
qed

lemma createPlayers_props:
  assumes "soundGame g" and "statsReady g"
  shows "soundGame (createPlayers is r g) \<and> statsReady (createPlayers is r g) \<and>
         length (players (createPlayers is r g)) = length (players g) + length is"
  using assms
proof (induction "is" arbitrary: r g)
  case Nil
  then show ?case by simp
next
  case (Cons i "is")
  let ?bot = "fst (newBot (''Bot '' @ showNat (i + 1)) r)"
  let ?g = "g\<lparr>players := players g @ [?bot],
              gameStats := (gameStats g)\<lparr>playerStats := (playerStats (gameStats g))
                (name ?bot \<mapsto> \<lparr>statWins = 0, statTotalPlays = 0, averagePlaysPerGame = 0\<rparr>)\<rparr>\<rparr>"
  have "validHand ?bot" by (simp add: newBot_def validHand_def)
  with Cons.prems(1) have s: "soundGame ?g" by (simp add: soundGame_def)
  from Cons.prems(2) have st: "statsReady ?g" by (auto simp: statsReady_def list_all_iff)
  from Cons.IH [OF s st, of "snd (newBot (''Bot '' @ showNat (i + 1)) r)"]
  show ?case by (simp add: case_prod_beta)
qed

lemma newGame_props:
  "soundGame (newGame r n)" "statsReady (newGame r n)" "length (players (newGame r n)) = n"
proof -
  let ?g0 = "\<lparr>players = [], dutchPiles = (\<lambda>c. []), gameActive = False, winner = None,
        roundStartTime = None, roundDuration = 0, roundNumber = 0, moveCount = 0,
        gameStats = \<lparr>totalGames = 0, averageRoundDuration = 0, playerStats = Map.empty\<rparr>\<rparr>"
  have "soundGame ?g0" by (simp add: soundGame_def foundationsBuilt_empty)
  moreover have "statsReady ?g0" by (simp add: statsReady_def)
  ultimately have "soundGame (createPlayers [0..<n] r ?g0) \<and> statsReady (createPlayers [0..<n] r ?g0) \<and>
         length (players (createPlayers [0..<n] r ?g0)) = length (players ?g0) + length [0..<n]"
    by (rule createPlayers_props)
  then show "soundGame (newGame r n)" "statsReady (newGame r n)" "length (players (newGame r n)) = n"
    by (simp_all add: newGame_def)
qed

lemma applyGameOp_sound:
  assumes "soundGame g" and "applyGameOp a g = Inr g'"
  shows "soundGame g'"
proof (cases a)
  case (StartNewRound r now)
  with assms(2) startNewRound_sound(1) [of r now g] show ?thesis by auto
next
  case (PlayTurn r now)
  with assms(2) obtain b where "playTurn r now g = Inr (b, g')"
    by (cases "playTurn r now g") auto
  from playTurn_sound(1) [OF assms(1) this] show ?thesis .
next
  case (BotPlacement i r)
  with assms(2) have i: "i < length (players g)" by (auto split: if_splits)
  with assms(2) BotPlacement obtain b p' d' r'
    where mm: "makeMove r (dutchPiles g) (players g ! i) = Inr (b, p', d', r')"
      and g': "g' = g\<lparr>players := (players g)[i := p'], dutchPiles := d'\<rparr>"
    by (cases "makeMove r (dutchPiles g) (players g ! i)") auto
  from assms(1) i have "validHand (players g ! i)" by (rule soundGame_nth)
  moreover from assms(1) have "foundationsBuilt (dutchPiles g)" by (simp add: soundGame_def)
  ultimately have "validHand p'" "foundationsBuilt d'" using makeMove_sound [OF mm] by simp_all
  with assms(1) g' show ?thesis using soundGame_update by blast
qed

lemma runGame_sound: "soundGame g \<Longrightarrow> runGame ops g = Inr g' \<Longrightarrow> soundGame g'"
proof (induction ops arbitrary: g)
  case Nil
  then show ?case by simp
next
  case (Cons a ops)
  from Cons.prems(2) obtain g1 where a: "applyGameOp a g = Inr g1" and rest: "runGame ops g1 = Inr g'"
    by (cases "applyGameOp a g") auto
  from applyGameOp_sound [OF Cons.prems(1) a] have "soundGame g1" .
  from Cons.IH [OF this rest] show ?case .
qed

text \<open>
  C7.  In every state that a game made by the constructor reaches by rounds started, turns
  played and single bot invocations, each of the four Dutch piles holds, from bottom to
  top, the values 1 to k of its own colour, for some k from 0 to 10.
\<close>

theorem foundations_build_upward:
  assumes "runGame ops (newGame r n) = Inr g"
  shows "foundationsBuilt (dutchPiles g) \<and>
     (\<forall>c. \<exists>k\<le>10. dutchPiles g c = map (\<lambda>v. Card v c) [1..int k])"
proof -
  from runGame_sound [OF newGame_props(1) assms] have b: "foundationsBuilt (dutchPiles g)"
    by (simp add: soundGame_def)
  then have "\<forall>c. foundationPile c (dutchPiles g c)" by (simp add: foundationsBuilt_iff)
  then have "\<forall>c. \<exists>k\<le>10. dutchPiles g c = map (\<lambda>v. Card v c) [1..int k]"
    unfolding foundationPile_def by blast
  with b show ?thesis by simp
qed



text \<open>A game of two players: a round is started, the first bot moves, a turn is played.\<close>

theorem foundations_build_upward_witness:
  "\<exists>g. runGame [StartNewRound steadyRnd 0, BotPlacement 0 steadyRnd, PlayTurn steadyRnd steadyClock]
          (newGame steadyRnd 2) = Inr g \<and>
       foundationsBuilt (dutchPiles g) \<and>
       (\<forall>c. \<exists>k\<le>10. dutchPiles g c = map (\<lambda>v. Card v c) [1..int k])"
proof -
  let ?g0 = "newGame steadyRnd 2"
  let ?g1 = "startNewRound steadyRnd 0 ?g0"
  have r1: "statsReady ?g1" and l1: "0 < length (players ?g1)"
    by (simp_all add: startNewRound_sound newGame_props)
  obtain b p' d' r' where mm: "makeMove steadyRnd (dutchPiles ?g1) (players ?g1 ! 0) = Inr (b, p', d', r')"
    using makeMove_total by blast
  let ?g2 = "?g1\<lparr>players := (players ?g1)[0 := p'], dutchPiles := d'\<rparr>"
  have "map name (players ?g2) = map name (players ?g1)"
    using makeMove_name [OF mm] by (simp add: map_update_same)
  then have "statsReady ?g2 = statsReady ?g1" by (rule statsReady_cong) simp
  with r1 have r2: "statsReady ?g2" by simp
  from playTurn_total [OF r2] obtain b3 g3
    where t3: "playTurn steadyRnd steadyClock ?g2 = Inr (b3, g3)" by blast
  have run: "runGame [StartNewRound steadyRnd 0, BotPlacement 0 steadyRnd, PlayTurn steadyRnd steadyClock]
          ?g0 = Inr g3"
    using l1 mm t3 by simp
  from foundations_build_upward [OF run] run show ?thesis by blast
qed


end
